theory Spec2Isabelle
  imports Complex_Main "HOL-Library.AList"
begin

section \<open>JavaScript numbers\<close>

text \<open>
  A JavaScript number is a binary64 value: \<open>NaN\<close>, an infinity, or a finite number.
  \<open>Fin q\<close> stands for the finite value \<open>q\<close>; the two zeros are one value. The result
  of an arithmetic operation or of reading a text is the exact result rounded to the
  nearest binary64 value, ties to the even significand (\<open>round64\<close>). Comparisons and
  additions with \<open>NaN\<close> and the infinities follow ECMAScript.
\<close>

datatype jsnum = NaN | NegInf | Fin rat | PosInf

fun js_lt :: "jsnum \<Rightarrow> jsnum \<Rightarrow> bool" where
  "js_lt NaN b = False"
| "js_lt a NaN = False"
| "js_lt NegInf b = (b \<noteq> NegInf)"
| "js_lt PosInf b = False"
| "js_lt (Fin x) NegInf = False"
| "js_lt (Fin x) PosInf = True"
| "js_lt (Fin x) (Fin y) = (x < y)"

definition js_gt :: "jsnum \<Rightarrow> jsnum \<Rightarrow> bool" where
  "js_gt a b = js_lt b a"

definition js_le :: "jsnum \<Rightarrow> jsnum \<Rightarrow> bool" where
  "js_le a b = (a \<noteq> NaN \<and> b \<noteq> NaN \<and> \<not> js_lt b a)"

definition js_ge :: "jsnum \<Rightarrow> jsnum \<Rightarrow> bool" where
  "js_ge a b = js_le b a"

subsection \<open>Rounding to binary64\<close>

text \<open>
  A binary64 value has a significand of 53 bits and an exponent between -1022 and 1023.
  A number \<open>a\<close> with \<open>2 ^ e <= a < 2 ^ (e + 1)\<close> is rounded to a multiple of
  \<open>2 ^ (e - 52)\<close>, and to a multiple of \<open>2 ^ -1074\<close> when it is smaller than
  \<open>2 ^ -1022\<close> (the subnormal numbers); a result of \<open>2 ^ 1024\<close> or more, that is
  \<open>n * 2 ^ p\<close> where \<open>n\<close> has more than \<open>1024 - p\<close> binary digits, is an infinity.
\<close>

definition pow2 :: "int \<Rightarrow> rat" where
  "pow2 e = (if 0 \<le> e then 2 ^ nat e else 1 / 2 ^ nat (- e))"

text \<open>The number of binary digits of a positive integer.\<close>

function bit_length :: "int \<Rightarrow> int" where
  "bit_length n = (if n \<le> 0 then 0 else 1 + bit_length (n div 2))"
  by pat_completeness auto
termination
  by (relation "measure nat") auto

text \<open>\<open>ilog2 a\<close> is the \<open>e\<close> with \<open>2 ^ e <= a < 2 ^ (e + 1)\<close>, for a positive \<open>a\<close>.\<close>

definition ilog2 :: "rat \<Rightarrow> int" where
  "ilog2 a =
     (let (n, d) = quotient_of a;
          k = bit_length n - bit_length d
      in if pow2 k \<le> a then k else k - 1)"

definition round_even :: "rat \<Rightarrow> int" where
  "round_even m =
     (let f = \<lfloor>m\<rfloor>; r = m - of_int f
      in if r < 1 / 2 then f else if 1 / 2 < r then f + 1 else if even f then f else f + 1)"

definition min_exponent :: nat where
  "min_exponent = 1074"

definition round64 :: "rat \<Rightarrow> jsnum" where
  "round64 q =
     (if q = 0 then Fin 0
      else
        let a = \<bar>q\<bar>;
            p = max (ilog2 a - 52) (- int min_exponent);
            n = round_even (a / pow2 p);
            r = of_int n * pow2 p
        in if 1024 < p + bit_length n then (if q < 0 then NegInf else PosInf)
           else Fin (if q < 0 then - r else r))"

text \<open>A rational is a binary64 value if rounding leaves it as it is.\<close>

definition is_double :: "rat \<Rightarrow> bool" where
  "is_double q = (round64 q = Fin q)"

subsection \<open>Addition\<close>

fun js_add :: "jsnum \<Rightarrow> jsnum \<Rightarrow> jsnum" where
  "js_add NaN b = NaN"
| "js_add a NaN = NaN"
| "js_add PosInf b = (if b = NegInf then NaN else PosInf)"
| "js_add NegInf b = (if b = PosInf then NaN else NegInf)"
| "js_add (Fin x) PosInf = PosInf"
| "js_add (Fin x) NegInf = NegInf"
| "js_add (Fin x) (Fin y) = round64 (x + y)"

definition isNaN :: "jsnum \<Rightarrow> bool" where
  "isNaN n = (n = NaN)"

text \<open>\<open>n || 0\<close> on a number: \<open>NaN\<close> and zero are falsy, every other number is kept.\<close>

definition or_zero :: "jsnum \<Rightarrow> jsnum" where
  "or_zero n = (if n = NaN \<or> n = Fin 0 then Fin 0 else n)"

section \<open>Data model\<close>

text \<open>The typedefs \<open>Item\<close> and \<open>MonthData\<close> of the source.\<close>

record item =
  item_id :: string
  name :: string
  price :: jsnum
  createdAt :: string

record monthdata =
  maxBudget :: jsnum
  items :: "item list"

section \<open>Derived totals\<close>

text \<open>\<open>items.reduce((s, it) => s + (Number(it.price) || 0), 0)\<close>\<close>

definition total :: "item list \<Rightarrow> jsnum" where
  "total its = foldl (\<lambda>s it. js_add s (or_zero (price it))) (Fin 0) its"

text \<open>\<open>total > maxBudget && maxBudget > 0\<close>\<close>

definition exceeding :: "jsnum \<Rightarrow> jsnum \<Rightarrow> bool" where
  "exceeding tot mb = (js_gt tot mb \<and> js_gt mb (Fin 0))"

text \<open>
  \<open>overBudgetMap\<close>: the callback of \<open>items.map\<close> reads and updates the variable
  \<open>running\<close> of the enclosing closure; the loop passes it along.
\<close>

fun overBudget_loop :: "jsnum \<Rightarrow> jsnum \<Rightarrow> item list \<Rightarrow> bool list" where
  "overBudget_loop mb running [] = []"
| "overBudget_loop mb running (it # its) =
     (let p = or_zero (price it);
          start = running;
          running' = js_add running p
      in (js_gt mb (Fin 0) \<and> js_lt start mb \<and> js_gt running' mb \<or> js_ge start mb)
         # overBudget_loop mb running' its)"

definition overBudgetMap :: "item list \<Rightarrow> jsnum \<Rightarrow> bool list" where
  "overBudgetMap its mb = overBudget_loop mb (Fin 0) its"

text \<open>The cumulative sum in front of position \<open>i\<close>, as the loop has accumulated it.\<close>

definition running_before :: "item list \<Rightarrow> nat \<Rightarrow> jsnum" where
  "running_before its i = foldl js_add (Fin 0) (map (\<lambda>it. or_zero (price it)) (take i its))"

definition priced :: "rat \<Rightarrow> item" where
  "priced p = \<lparr>item_id = ''i'', name = ''n'', price = Fin p, createdAt = ''t''\<rparr>"

section \<open>Text\<close>

text \<open>
  Strings are lists of code units below 256. \<open>String.prototype.trim\<close> strips white
  space and line terminators from both ends; in this range these are TAB, LF, VT, FF,
  CR, SP and NBSP.
\<close>

definition is_space :: "char \<Rightarrow> bool" where
  "is_space c = ((of_char c :: nat) \<in> {9, 10, 11, 12, 13, 32, 160})"

definition trim :: "string \<Rightarrow> string" where
  "trim s = rev (dropWhile is_space (rev (dropWhile is_space s)))"

definition is_digit :: "char \<Rightarrow> bool" where
  "is_digit c = (48 \<le> (of_char c :: nat) \<and> (of_char c :: nat) \<le> 57)"

definition digit_val :: "char \<Rightarrow> nat" where
  "digit_val c = of_char c - 48"

definition dec_nat :: "string \<Rightarrow> nat" where
  "dec_nat ds = foldl (\<lambda>a c. 10 * a + digit_val c) 0 ds"

definition pow10 :: "int \<Rightarrow> rat" where
  "pow10 e = (if 0 \<le> e then 10 ^ nat e else 1 / 10 ^ nat (- e))"

subsection \<open>\<open>Number(text)\<close>\<close>

text \<open>
  The conversion of a string to a number (ECMAScript \<open>StringToNumber\<close>): the text is
  trimmed; the empty text is 0; a literal is \<open>0x\<close>, \<open>0o\<close> or \<open>0b\<close> followed by
  digits of that radix, or an optional sign followed by \<open>Infinity\<close> or by a decimal
  literal (digits, an optional fraction, an optional exponent; one of the integer and
  fraction parts may be empty); anything else is \<open>NaN\<close>. The value of a literal is
  its exact value rounded to binary64, so a literal too large is an infinity and one too
  small is 0.
\<close>

definition all_digits :: "string \<Rightarrow> int option" where
  "all_digits ds = (if ds \<noteq> [] \<and> list_all is_digit ds then Some (int (dec_nat ds)) else None)"

definition exponent_part :: "string \<Rightarrow> int option" where
  "exponent_part s =
     (case s of
        [] \<Rightarrow> Some 0
      | c # t \<Rightarrow>
          if c = CHR ''e'' \<or> c = CHR ''E'' then
            (case t of
               [] \<Rightarrow> None
             | d # u \<Rightarrow>
                 if d = CHR ''+'' then all_digits u
                 else if d = CHR ''-'' then map_option uminus (all_digits u)
                 else all_digits t)
          else None)"

definition strDecimalLiteral :: "string \<Rightarrow> rat option" where
  "strDecimalLiteral s =
     (let ip = takeWhile is_digit s; r = dropWhile is_digit s
      in case r of
           c # t \<Rightarrow>
             if c = CHR ''.'' then
               (let fp = takeWhile is_digit t; r' = dropWhile is_digit t
                in if ip = [] \<and> fp = [] then None
                   else map_option
                          (\<lambda>e. (of_nat (dec_nat ip) + of_nat (dec_nat fp) / 10 ^ length fp) * pow10 e)
                          (exponent_part r'))
             else if ip = [] then None
             else map_option (\<lambda>e. of_nat (dec_nat ip) * pow10 e) (exponent_part r)
         | [] \<Rightarrow> if ip = [] then None else Some (of_nat (dec_nat ip)))"

definition radix_digit :: "char \<Rightarrow> nat option" where
  "radix_digit c =
     (let n = (of_char c :: nat)
      in if 48 \<le> n \<and> n \<le> 57 then Some (n - 48)
         else if 97 \<le> n \<and> n \<le> 102 then Some (n - 87)
         else if 65 \<le> n \<and> n \<le> 70 then Some (n - 55)
         else None)"

fun radix_nat :: "nat \<Rightarrow> nat \<Rightarrow> string \<Rightarrow> nat option" where
  "radix_nat b acc [] = Some acc"
| "radix_nat b acc (c # cs) =
     (case radix_digit c of
        None \<Rightarrow> None
      | Some d \<Rightarrow> if d < b then radix_nat b (b * acc + d) cs else None)"

definition nonDecimalLiteral :: "string \<Rightarrow> nat option" where
  "nonDecimalLiteral s =
     (case s of
        z # x # t \<Rightarrow>
          if z \<noteq> CHR ''0'' \<or> t = [] then None
          else if x = CHR ''x'' \<or> x = CHR ''X'' then radix_nat 16 0 t
          else if x = CHR ''o'' \<or> x = CHR ''O'' then radix_nat 8 0 t
          else if x = CHR ''b'' \<or> x = CHR ''B'' then radix_nat 2 0 t
          else None
      | _ \<Rightarrow> None)"

definition unsignedLiteral :: "string \<Rightarrow> jsnum" where
  "unsignedLiteral u =
     (if u = ''Infinity'' then PosInf
      else case strDecimalLiteral u of Some q \<Rightarrow> round64 q | None \<Rightarrow> NaN)"

definition js_neg :: "jsnum \<Rightarrow> jsnum" where
  "js_neg n = (case n of NaN \<Rightarrow> NaN | NegInf \<Rightarrow> PosInf | PosInf \<Rightarrow> NegInf | Fin q \<Rightarrow> Fin (- q))"

definition Number :: "string \<Rightarrow> jsnum" where
  "Number s =
     (let t = trim s
      in case t of
           [] \<Rightarrow> Fin 0
         | c # u \<Rightarrow>
             (case nonDecimalLiteral t of
                Some n \<Rightarrow> round64 (of_nat n)
              | None \<Rightarrow>
                  if c = CHR ''+'' then unsignedLiteral u
                  else if c = CHR ''-'' then js_neg (unsignedLiteral u)
                  else unsignedLiteral t))"

section \<open>Objects and the component state\<close>

text \<open>
  A \<open>Store\<close> value \<open>{ months }\<close> refers to a \<open>months\<close> object, which maps month keys
  to \<open>MonthData\<close> objects. The code assigns to properties of both kinds of object, and
  a spread \<open>{...prev}\<close> copies references, so both live in a heap: an address denotes
  one object, and two stores that hold the same address share it. A \<open>months\<close> object
  keeps its keys in insertion order (\<open>AList.update\<close> overwrites a present key in place
  and appends a new one). Item arrays and items are never assigned to after their
  creation and are kept as values. \<open>next_addr\<close> is the first address not yet in use.
\<close>

type_synonym addr = nat

record heap =
  monthsObjs :: "addr \<Rightarrow> (string \<times> addr) list"
  dataObjs :: "addr \<Rightarrow> monthdata"
  next_addr :: addr

record store =
  months :: addr

definition new_months :: "(string \<times> addr) list \<Rightarrow> heap \<Rightarrow> addr \<times> heap" where
  "new_months tab h =
     (next_addr h, h\<lparr>monthsObjs := (monthsObjs h)(next_addr h := tab), next_addr := Suc (next_addr h)\<rparr>)"

definition new_data :: "monthdata \<Rightarrow> heap \<Rightarrow> addr \<times> heap" where
  "new_data d h =
     (next_addr h, h\<lparr>dataObjs := (dataObjs h)(next_addr h := d), next_addr := Suc (next_addr h)\<rparr>)"

text \<open>\<open>obj[k] = a\<close> on the \<open>months\<close> object at \<open>r\<close>.\<close>

definition set_month :: "addr \<Rightarrow> string \<Rightarrow> addr \<Rightarrow> heap \<Rightarrow> heap" where
  "set_month r k a h = h\<lparr>monthsObjs := (monthsObjs h)(r := AList.update k a (monthsObjs h r))\<rparr>"

text \<open>\<open>store.months[k]\<close>: the address of the month's object, or \<open>undefined\<close>.\<close>

definition get_month :: "heap \<Rightarrow> store \<Rightarrow> string \<Rightarrow> addr option" where
  "get_month h s k = map_of (monthsObjs h (months s)) k"

text \<open>What a store holds, read through the heap: every month key with its data.\<close>

definition snapshot :: "heap \<Rightarrow> store \<Rightarrow> (string \<times> monthdata) list" where
  "snapshot h s = map (\<lambda>(k, a). (k, dataObjs h a)) (monthsObjs h (months s))"

definition month_data :: "heap \<Rightarrow> store \<Rightarrow> string \<Rightarrow> monthdata option" where
  "month_data h s k = map_option (dataObjs h) (get_month h s k)"

text \<open>
  The state of the component: the heap, the current \<open>store\<close>, the active month and the
  two inputs of the add form.
\<close>

record state =
  heap :: heap
  store :: store
  activeMonth :: string
  newName :: string
  newPrice :: string

text \<open>
  How a handler ends: it ran to its end, it returned early (an empty name, a rejected
  price, a declined confirmation), or its updater threw a \<open>TypeError\<close>.
\<close>

datatype result = Done | EmptyName | BadPrice | Declined | TypeError

text \<open>
  \<open>setStore(updater)\<close>: the updater is applied to the current store at once. When the
  updater throws (\<open>None\<close>) nothing is assigned: the handler ends with the state it
  started with.
\<close>

definition setStore :: "(heap \<Rightarrow> store \<Rightarrow> (heap \<times> store) option) \<Rightarrow> state \<Rightarrow> result \<times> state" where
  "setStore upd s =
     (case upd (heap s) (store s) of
        None \<Rightarrow> (TypeError, s)
      | Some (h', st') \<Rightarrow> (Done, s\<lparr>heap := h', store := st'\<rparr>))"

subsection \<open>The effect that creates the active month\<close>

text \<open>
  \<open>next = { ...prev }\<close> shares \<open>prev.months\<close>; a missing month is written into that
  object. (The effect also writes the store to the storage, which is not part of this
  state.)
\<close>

definition ensureMonth_upd :: "string \<Rightarrow> heap \<Rightarrow> store \<Rightarrow> (heap \<times> store) option" where
  "ensureMonth_upd k h prev =
     (let next = \<lparr>months = months prev\<rparr>
      in case get_month h next k of
           None \<Rightarrow>
             (let (a, h1) = new_data \<lparr>maxBudget = Fin 0, items = []\<rparr> h
              in Some (set_month (months next) k a h1, next))
         | Some a \<Rightarrow> Some (h, next))"

definition ensureMonth :: "state \<Rightarrow> result \<times> state" where
  "ensureMonth s = setStore (ensureMonth_upd (activeMonth s)) s"

subsection \<open>Actions\<close>

text \<open>
  \<open>addItem\<close>, \<open>removeItem\<close> and \<open>updateItem\<close> build
  \<open>next = { ...prev, months: { ...prev.months } }\<close>, a store with a \<open>months\<close> object of
  its own, read \<open>current = next.months[activeMonth]\<close> and store a new month object
  \<open>{ ...current, items: ... }\<close> under the key. Reading \<open>current.items\<close> of a missing
  month throws.
\<close>

definition replace_items :: "(item list \<Rightarrow> item list) \<Rightarrow> string \<Rightarrow> heap \<Rightarrow> store \<Rightarrow> (heap \<times> store) option" where
  "replace_items f k h prev =
     (let (r, h1) = new_months (monthsObjs h (months prev)) h;
          next = \<lparr>months = r\<rparr>
      in case get_month h1 next k of
           None \<Rightarrow> None
         | Some c \<Rightarrow>
             (let current = dataObjs h1 c;
                  (a, h2) = new_data (current\<lparr>items := f (items current)\<rparr>) h1
              in Some (set_month (months next) k a h2, next)))"

definition addItem :: "string \<Rightarrow> string \<Rightarrow> state \<Rightarrow> result \<times> state" where
  "addItem uuid now s =
     (if trim (newName s) = [] then (EmptyName, s)
      else
        let p = Number (newPrice s)
        in if isNaN p \<or> js_le p (Fin 0) then (BadPrice, s)
           else
             let it = \<lparr>item_id = uuid, name = trim (newName s), price = p, createdAt = now\<rparr>
             in case setStore (replace_items (\<lambda>its. its @ [it]) (activeMonth s)) s of
                  (Done, s') \<Rightarrow> (Done, s'\<lparr>newName := [], newPrice := []\<rparr>)
                | (r, s') \<Rightarrow> (r, s'))"

definition removeItem :: "bool \<Rightarrow> string \<Rightarrow> state \<Rightarrow> result \<times> state" where
  "removeItem confirmed i s =
     (if \<not> confirmed then (Declined, s)
      else setStore (replace_items (filter (\<lambda>it. item_id it \<noteq> i)) (activeMonth s)) s)"

text \<open>\<open>fields\<close> carries the properties to overwrite: a name, a price, both or none.\<close>

record fields =
  f_name :: "string option"
  f_price :: "jsnum option"

definition spread_fields :: "item \<Rightarrow> fields \<Rightarrow> item" where
  "spread_fields it f =
     it\<lparr>name := (case f_name f of None \<Rightarrow> name it | Some n \<Rightarrow> n),
        price := (case f_price f of None \<Rightarrow> price it | Some p \<Rightarrow> p)\<rparr>"

definition updateItem :: "string \<Rightarrow> fields \<Rightarrow> state \<Rightarrow> result \<times> state" where
  "updateItem i f s =
     setStore (replace_items (map (\<lambda>it. if item_id it = i then spread_fields it f else it))
                 (activeMonth s)) s"

text \<open>
  \<open>updateBudget\<close> and \<open>resetMonth\<close> build \<open>next = { ...prev }\<close>, which shares
  \<open>prev.months\<close>. \<open>updateBudget\<close> assigns to \<open>maxBudget\<close> of the month object found
  there (and throws when the month is missing); \<open>resetMonth\<close> assigns a new month object
  to the key of the shared \<open>months\<close> object.
\<close>

definition updateBudget_upd :: "jsnum \<Rightarrow> string \<Rightarrow> heap \<Rightarrow> store \<Rightarrow> (heap \<times> store) option" where
  "updateBudget_upd n k h prev =
     (let next = \<lparr>months = months prev\<rparr>
      in case get_month h next k of
           None \<Rightarrow> None
         | Some m \<Rightarrow>
             Some (h\<lparr>dataObjs := (dataObjs h)
                      (m := (dataObjs h m)\<lparr>maxBudget := (if isNaN n then Fin 0 else n)\<rparr>)\<rparr>,
                   next))"

definition updateBudget :: "string \<Rightarrow> state \<Rightarrow> result \<times> state" where
  "updateBudget val s = (let n = Number val in setStore (updateBudget_upd n (activeMonth s)) s)"

definition resetMonth_upd :: "string \<Rightarrow> heap \<Rightarrow> store \<Rightarrow> (heap \<times> store) option" where
  "resetMonth_upd k h prev =
     (let next = \<lparr>months = months prev\<rparr>;
          (a, h1) = new_data \<lparr>maxBudget = Fin 0, items = []\<rparr> h
      in Some (set_month (months next) k a h1, next))"

definition resetMonth :: "bool \<Rightarrow> state \<Rightarrow> result \<times> state" where
  "resetMonth confirmed s =
     (if \<not> confirmed then (Declined, s) else setStore (resetMonth_upd (activeMonth s)) s)"

subsection \<open>Well-formed heaps\<close>

text \<open>
  The store's objects are allocated, its month keys are distinct and no month object is
  stored under two keys. The empty store has the property and every action keeps it.
\<close>

definition store_ok :: "heap \<Rightarrow> store \<Rightarrow> bool" where
  "store_ok h s =
     (months s < next_addr h \<and>
      list_all (\<lambda>(k, a). a < next_addr h) (monthsObjs h (months s)) \<and>
      distinct (map fst (monthsObjs h (months s))) \<and>
      distinct (map snd (monthsObjs h (months s))))"

text \<open>Every month of the store has a ceiling \<open>>= 0\<close>.\<close>

definition budgets_nonneg :: "heap \<Rightarrow> store \<Rightarrow> bool" where
  "budgets_nonneg h s = list_all (\<lambda>(k, d). js_ge (maxBudget d) (Fin 0)) (snapshot h s)"

text \<open>
  A state with the months 2024-01 (ceiling 100, one item of 30) and 2024-02 (ceiling 50,
  one item of 20), the first of them active.
\<close>

definition heap0 :: heap where
  "heap0 =
     \<lparr>monthsObjs = (\<lambda>_. [])(0 := [(''2024-01'', 1), (''2024-02'', 2)]),
      dataObjs = (\<lambda>_. \<lparr>maxBudget = Fin 0, items = []\<rparr>)
        (1 := \<lparr>maxBudget = Fin 100,
               items = [\<lparr>item_id = ''a'', name = ''rent'', price = Fin 30, createdAt = ''t0''\<rparr>]\<rparr>,
         2 := \<lparr>maxBudget = Fin 50,
               items = [\<lparr>item_id = ''b'', name = ''gym'', price = Fin 20, createdAt = ''t1''\<rparr>]\<rparr>),
      next_addr = 3\<rparr>"

definition state0 :: state where
  "state0 = \<lparr>heap = heap0, store = \<lparr>months = 0\<rparr>, activeMonth = ''2024-01'',
             newName = '' milk '', newPrice = ''4.5''\<rparr>"

text \<open>The component when it starts with the empty store \<open>{months: {}}\<close>.\<close>

definition init_state :: "string \<Rightarrow> state" where
  "init_state k =
     \<lparr>heap = \<lparr>monthsObjs = (\<lambda>_. []), dataObjs = (\<lambda>_. \<lparr>maxBudget = Fin 0, items = []\<rparr>),
              next_addr = 1\<rparr>,
      store = \<lparr>months = 0\<rparr>, activeMonth = k, newName = [], newPrice = []\<rparr>"

definition month_of :: "state \<Rightarrow> string \<Rightarrow> monthdata option" where
  "month_of s k = month_data (heap s) (store s) k"

definition state_ok :: "state \<Rightarrow> bool" where
  "state_ok s = store_ok (heap s) (store s)"

definition state_budgets_nonneg :: "state \<Rightarrow> bool" where
  "state_budgets_nonneg s = budgets_nonneg (heap s) (store s)"

section \<open>JSON\<close>

text \<open>
  A parsed document, and the value a store has when it is serialised: a tree of
  JavaScript values. An object keeps its own properties in insertion order.
\<close>

datatype jsval =
  JNull | JBool bool | JNum jsnum | JStr string | JArr "jsval list" | JObj "(string \<times> jsval) list"

text \<open>\<open>!v\<close> is \<open>\<not> truthy v\<close>; \<open>typeof v === "object"\<close> holds of \<open>null\<close>, arrays and objects.\<close>

fun truthy :: "jsval \<Rightarrow> bool" where
  "truthy JNull = False"
| "truthy (JBool b) = b"
| "truthy (JNum n) = (n \<noteq> NaN \<and> n \<noteq> Fin 0)"
| "truthy (JStr s) = (s \<noteq> [])"
| "truthy (JArr vs) = True"
| "truthy (JObj kvs) = True"

fun typeof_object :: "jsval \<Rightarrow> bool" where
  "typeof_object JNull = True"
| "typeof_object (JArr vs) = True"
| "typeof_object (JObj kvs) = True"
| "typeof_object v = False"

text \<open>
  \<open>v.months\<close> for a value that is not \<open>null\<close>: the property of an object, and
  \<open>undefined\<close> (\<open>None\<close>) for an object without it and for every array, string,
  number and boolean.
\<close>

definition get_months :: "jsval \<Rightarrow> jsval option" where
  "get_months v = (case v of JObj kvs \<Rightarrow> map_of kvs ''months'' | _ \<Rightarrow> None)"

definition truthy_opt :: "jsval option \<Rightarrow> bool" where
  "truthy_opt p = (case p of None \<Rightarrow> False | Some v \<Rightarrow> truthy v)"

definition typeof_object_opt :: "jsval option \<Rightarrow> bool" where
  "typeof_object_opt p = (case p of None \<Rightarrow> False | Some v \<Rightarrow> typeof_object v)"

subsection \<open>\<open>JSON.stringify\<close>\<close>

text \<open>
  A finite number prints in plain decimal notation: a sign, the digits of the integer
  part and, unless it is zero, a point and the digits of the fraction. (JavaScript
  prints the shortest text that reads back as the same binary64 value and switches to
  exponent notation below 1e-6 and from 1e21 on; \<open>JSON.parse\<close> reads either text to
  the number printed.) The digits of the fraction are produced one by one; a binary64
  value, a multiple of \<open>2 ^ -1074\<close>, has at most 1074 of them.
\<close>

definition digit_char :: "nat \<Rightarrow> char" where
  "digit_char d = char_of (48 + d)"

fun digits_of :: "nat \<Rightarrow> string" where
  "digits_of n = (if n < 10 then [digit_char n] else digits_of (n div 10) @ [digit_char (n mod 10)])"

fun frac_digits :: "nat \<Rightarrow> rat \<Rightarrow> string" where
  "frac_digits 0 f = []"
| "frac_digits (Suc n) f =
     (if f = 0 then []
      else digit_char (nat \<lfloor>10 * f\<rfloor>) # frac_digits n (10 * f - of_int \<lfloor>10 * f\<rfloor>))"

definition num_text :: "rat \<Rightarrow> string" where
  "num_text q =
     (let a = \<bar>q\<bar>; ip = nat \<lfloor>a\<rfloor>; f = a - of_int \<lfloor>a\<rfloor>
      in (if q < 0 then ''-'' else []) @ digits_of ip @
         (if f = 0 then [] else CHR ''.'' # frac_digits min_exponent f))"

text \<open>
  \<open>QuoteJSONString\<close>: the quotation mark and the backslash are escaped, the control
  characters print as \<open>\b \t \n \f \r\<close> or as \<open>\u00XX\<close> with lower-case hexadecimal
  digits.
\<close>

definition hex_char :: "nat \<Rightarrow> char" where
  "hex_char d = (if d < 10 then char_of (48 + d) else char_of (87 + d))"

definition quote_char :: "char \<Rightarrow> string" where
  "quote_char c =
     (let n = (of_char c :: nat)
      in if n = 34 then [CHR 0x5C, CHR 0x22]
         else if n = 92 then [CHR 0x5C, CHR 0x5C]
         else if n = 8 then [CHR 0x5C, CHR ''b'']
         else if n = 9 then [CHR 0x5C, CHR ''t'']
         else if n = 10 then [CHR 0x5C, CHR ''n'']
         else if n = 12 then [CHR 0x5C, CHR ''f'']
         else if n = 13 then [CHR 0x5C, CHR ''r'']
         else if n < 32 then [CHR 0x5C, CHR ''u'', CHR ''0'', CHR ''0'', hex_char (n div 16), hex_char (n mod 16)]
         else [c])"

definition quote :: "string \<Rightarrow> string" where
  "quote s = CHR 0x22 # concat (map quote_char s) @ [CHR 0x22]"

text \<open>
  \<open>JSON.stringify(v, null, g)\<close> at indentation \<open>ind\<close>. With a gap the members of a
  non-empty array or object stand on lines of their own, indented by the gap, and a
  colon is followed by a space; without a gap (\<open>g = 0\<close>) nothing is inserted. A number
  that is not finite prints as \<open>null\<close>.
\<close>

definition newline :: "nat \<Rightarrow> nat \<Rightarrow> string" where
  "newline g ind = (if g = 0 then [] else CHR 0x0A # replicate ind CHR '' '')"

fun join :: "'a list \<Rightarrow> 'a list list \<Rightarrow> 'a list" where
  "join sep [] = []"
| "join sep [x] = x"
| "join sep (x # y # ys) = x @ sep @ join sep (y # ys)"

fun stringify :: "nat \<Rightarrow> nat \<Rightarrow> jsval \<Rightarrow> string" where
  "stringify g ind JNull = ''null''"
| "stringify g ind (JBool b) = (if b then ''true'' else ''false'')"
| "stringify g ind (JNum n) = (case n of Fin q \<Rightarrow> num_text q | _ \<Rightarrow> ''null'')"
| "stringify g ind (JStr s) = quote s"
| "stringify g ind (JArr vs) =
     (if vs = [] then ''[]''
      else ''['' @ newline g (ind + g) @
           join (CHR '','' # newline g (ind + g)) (map (stringify g (ind + g)) vs) @
           newline g ind @ '']'')"
| "stringify g ind (JObj kvs) =
     (if kvs = [] then ''{}''
      else ''{'' @ newline g (ind + g) @
           join (CHR '','' # newline g (ind + g))
             (map (\<lambda>kv. quote (fst kv) @ '':'' @ (if g = 0 then [] else '' '') @
                         stringify g (ind + g) (snd kv)) kvs) @
           newline g ind @ ''}'')"

subsection \<open>\<open>JSON.parse\<close>\<close>

datatype token =
  LBrace | RBrace | LBrack | RBrack | Comma | Colon
  | TStr string | TNum rat | TTrue | TFalse | TNull

text \<open>
  A JSON number: an optional minus sign, an integer part without a superfluous leading
  zero, an optional fraction with at least one digit, an optional exponent.
\<close>

definition json_number :: "string \<Rightarrow> rat option" where
  "json_number w =
     (let u = (case w of c # t \<Rightarrow> if c = CHR ''-'' then t else w | [] \<Rightarrow> w);
          ip = takeWhile is_digit u;
          r = dropWhile is_digit u
      in if ip = [] \<or> (length ip > 1 \<and> hd ip = CHR ''0'') then None
         else if (case r of c # t \<Rightarrow> c = CHR ''.'' \<and> takeWhile is_digit t = [] | [] \<Rightarrow> False) then None
         else map_option (\<lambda>q. if u = w then q else - q) (strDecimalLiteral u))"

definition word_token :: "string \<Rightarrow> token option" where
  "word_token w =
     (if w = ''true'' then Some TTrue
      else if w = ''false'' then Some TFalse
      else if w = ''null'' then Some TNull
      else map_option TNum (json_number w))"

text \<open>
  The scanner. Between tokens it skips white space, emits punctuation, and enters a
  string or a word (a maximal run of letters, digits, signs and points, which must be a
  literal or a number). The punctuation \<open>{ } [ ] , :\<close> has the codes 123, 125, 91, 93,
  44 and 58, the quotation mark 34 and the backslash 92. Inside a string it decodes the
  escapes; a raw control character ends the parse, and so does an escape \<open>\uXXXX\<close>
  above \<open>00FF\<close>, which has no counterpart among the code units of the model.
\<close>

datatype act = Skip | Emit token | StartStr | StartWord | Bad

definition is_word_char :: "char \<Rightarrow> bool" where
  "is_word_char c =
     (let n = (of_char c :: nat)
      in (48 \<le> n \<and> n \<le> 57) \<or> (97 \<le> n \<and> n \<le> 122) \<or> (65 \<le> n \<and> n \<le> 90) \<or>
         n = 43 \<or> n = 45 \<or> n = 46)"

definition classify :: "char \<Rightarrow> act" where
  "classify c =
     (let n = (of_char c :: nat)
      in if n = 32 \<or> n = 9 \<or> n = 10 \<or> n = 13 then Skip
         else if n = 123 then Emit LBrace
         else if n = 125 then Emit RBrace
         else if n = 91 then Emit LBrack
         else if n = 93 then Emit RBrack
         else if n = 44 then Emit Comma
         else if n = 58 then Emit Colon
         else if n = 34 then StartStr
         else if is_word_char c then StartWord
         else Bad)"

definition unescape :: "char \<Rightarrow> char option" where
  "unescape c =
     (let n = (of_char c :: nat)
      in if n = 34 \<or> n = 92 \<or> n = 47 then Some c
         else if c = CHR ''b'' then Some (CHR 0x08)
         else if c = CHR ''f'' then Some (CHR 0x0C)
         else if c = CHR ''n'' then Some (CHR 0x0A)
         else if c = CHR ''r'' then Some (CHR 0x0D)
         else if c = CHR ''t'' then Some (CHR 0x09)
         else None)"

definition hex4 :: "string \<Rightarrow> char option" where
  "hex4 hs =
     (case radix_nat 16 0 hs of
        None \<Rightarrow> None
      | Some n \<Rightarrow> if n < 256 then Some (char_of n) else None)"

datatype mode = Scan | Str string | Esc string | Uni string string | Word string

definition cons_tok :: "token \<Rightarrow> token list option \<Rightarrow> token list option" where
  "cons_tok t r = map_option (Cons t) r"

definition cons_tok_opt :: "token option \<Rightarrow> token list option \<Rightarrow> token list option" where
  "cons_tok_opt t r = (case t of None \<Rightarrow> None | Some t' \<Rightarrow> cons_tok t' r)"

fun tokenize :: "mode \<Rightarrow> string \<Rightarrow> token list option" where
  "tokenize Scan [] = Some []"
| "tokenize (Word acc) [] = cons_tok_opt (word_token (rev acc)) (Some [])"
| "tokenize m [] = None"
| "tokenize Scan (c # cs) =
     (case classify c of
        Skip \<Rightarrow> tokenize Scan cs
      | Emit t \<Rightarrow> cons_tok t (tokenize Scan cs)
      | StartStr \<Rightarrow> tokenize (Str []) cs
      | StartWord \<Rightarrow> tokenize (Word [c]) cs
      | Bad \<Rightarrow> None)"
| "tokenize (Word acc) (c # cs) =
     (case classify c of
        StartWord \<Rightarrow> tokenize (Word (c # acc)) cs
      | Skip \<Rightarrow> cons_tok_opt (word_token (rev acc)) (tokenize Scan cs)
      | Emit t \<Rightarrow> cons_tok_opt (word_token (rev acc)) (cons_tok t (tokenize Scan cs))
      | StartStr \<Rightarrow> cons_tok_opt (word_token (rev acc)) (tokenize (Str []) cs)
      | Bad \<Rightarrow> None)"
| "tokenize (Str acc) (c # cs) =
     (if (of_char c :: nat) = 34 then cons_tok (TStr (rev acc)) (tokenize Scan cs)
      else if (of_char c :: nat) = 92 then tokenize (Esc acc) cs
      else if (of_char c :: nat) < 32 then None
      else tokenize (Str (c # acc)) cs)"
| "tokenize (Esc acc) (c # cs) =
     (if c = CHR ''u'' then tokenize (Uni acc []) cs
      else case unescape c of None \<Rightarrow> None | Some d \<Rightarrow> tokenize (Str (d # acc)) cs)"
| "tokenize (Uni acc hs) (c # cs) =
     (if length hs < 3 then tokenize (Uni acc (hs @ [c])) cs
      else case hex4 (hs @ [c]) of None \<Rightarrow> None | Some d \<Rightarrow> tokenize (Str (d # acc)) cs)"

text \<open>
  The parser runs over the tokens with a stack of the containers that are open: an array
  with its elements so far, an object with its members so far, and above an object the
  key whose value is being read (all in reverse order). A key that occurs twice keeps
  its first position and its last value. The value of a number token is rounded to
  binary64.
\<close>

datatype frame = ArrF "jsval list" | ObjF "(string \<times> jsval) list" | KeyF string

datatype pstate = PVal | PArr0 | PObj0 | PKey | PColon | PAfter | PEnd jsval

fun put_value :: "jsval \<Rightarrow> frame list \<Rightarrow> (pstate \<times> frame list) option" where
  "put_value v [] = Some (PEnd v, [])"
| "put_value v (ArrF es # st) = Some (PAfter, ArrF (v # es) # st)"
| "put_value v (KeyF k # ObjF ms # st) = Some (PAfter, ObjF ((k, v) # ms) # st)"
| "put_value v st = None"

definition close_obj :: "(string \<times> jsval) list \<Rightarrow> jsval" where
  "close_obj ms = JObj (foldl (\<lambda>al kv. AList.update (fst kv) (snd kv) al) [] (rev ms))"

fun close_arr :: "frame list \<Rightarrow> (pstate \<times> frame list) option" where
  "close_arr (ArrF es # st) = put_value (JArr (rev es)) st"
| "close_arr st = None"

fun close_brace :: "frame list \<Rightarrow> (pstate \<times> frame list) option" where
  "close_brace (ObjF ms # st) = put_value (close_obj ms) st"
| "close_brace st = None"

fun start_value :: "token \<Rightarrow> frame list \<Rightarrow> (pstate \<times> frame list) option" where
  "start_value LBrack st = Some (PArr0, ArrF [] # st)"
| "start_value LBrace st = Some (PObj0, ObjF [] # st)"
| "start_value (TStr s) st = put_value (JStr s) st"
| "start_value (TNum q) st = put_value (JNum (round64 q)) st"
| "start_value TTrue st = put_value (JBool True) st"
| "start_value TFalse st = put_value (JBool False) st"
| "start_value TNull st = put_value JNull st"
| "start_value t st = None"

fun step :: "pstate \<Rightarrow> frame list \<Rightarrow> token \<Rightarrow> (pstate \<times> frame list) option" where
  "step PVal st t = start_value t st"
| "step PArr0 st t = (if t = RBrack then close_arr st else start_value t st)"
| "step PObj0 st t =
     (case t of TStr k \<Rightarrow> Some (PColon, KeyF k # st) | RBrace \<Rightarrow> close_brace st | _ \<Rightarrow> None)"
| "step PKey st t = (case t of TStr k \<Rightarrow> Some (PColon, KeyF k # st) | _ \<Rightarrow> None)"
| "step PColon st t = (if t = Colon then Some (PVal, st) else None)"
| "step PAfter st t =
     (case t of
        Comma \<Rightarrow> (case st of ArrF es # st' \<Rightarrow> Some (PVal, st) | ObjF ms # st' \<Rightarrow> Some (PKey, st) | _ \<Rightarrow> None)
      | RBrack \<Rightarrow> close_arr st
      | RBrace \<Rightarrow> close_brace st
      | _ \<Rightarrow> None)"
| "step (PEnd v) st t = None"

fun parse_run :: "pstate \<Rightarrow> frame list \<Rightarrow> token list \<Rightarrow> jsval option" where
  "parse_run s st [] = (case s of PEnd v \<Rightarrow> Some v | _ \<Rightarrow> None)"
| "parse_run s st (t # ts) =
     (case step s st t of None \<Rightarrow> None | Some (s', st') \<Rightarrow> parse_run s' st' ts)"

text \<open>\<open>JSON.parse(text)\<close>; \<open>None\<close> stands for the \<open>SyntaxError\<close> it throws.\<close>

definition JSON_parse :: "string \<Rightarrow> jsval option" where
  "JSON_parse text = (case tokenize Scan text of None \<Rightarrow> None | Some ts \<Rightarrow> parse_run PVal [] ts)"

section \<open>Storage, export and import\<close>

definition STORAGE_KEY :: string where
  "STORAGE_KEY = ''finance_manager_v1''"

definition empty_store :: jsval where
  "empty_store = JObj [(''months'', JObj [])]"

text \<open>
  \<open>loadData\<close>: \<open>localStorage\<close> is a map from keys to texts; \<open>getItem\<close> of a missing key
  is \<open>null\<close>. Whatever \<open>JSON.parse\<close> throws is caught.
\<close>

definition loadData :: "(string \<rightharpoonup> string) \<Rightarrow> jsval" where
  "loadData localStorage =
     (case localStorage STORAGE_KEY of
        None \<Rightarrow> empty_store
      | Some raw \<Rightarrow>
          if raw = [] then empty_store
          else
            (case JSON_parse raw of
               None \<Rightarrow> empty_store
             | Some parsed \<Rightarrow>
                 if \<not> truthy parsed \<or> \<not> typeof_object parsed then empty_store
                 else if \<not> truthy_opt (get_months parsed) \<or> \<not> typeof_object_opt (get_months parsed)
                   then empty_store
                 else parsed))"

definition saveData :: "jsval \<Rightarrow> (string \<rightharpoonup> string) \<Rightarrow> (string \<rightharpoonup> string)" where
  "saveData st localStorage = localStorage(STORAGE_KEY \<mapsto> stringify 0 0 st)"

text \<open>The store of the typed model as the value \<open>JSON.stringify\<close> walks over.\<close>

definition js_of_item :: "item \<Rightarrow> jsval" where
  "js_of_item it =
     JObj [(''id'', JStr (item_id it)), (''name'', JStr (name it)),
           (''price'', JNum (price it)), (''createdAt'', JStr (createdAt it))]"

definition js_of_month :: "monthdata \<Rightarrow> jsval" where
  "js_of_month d =
     JObj [(''maxBudget'', JNum (maxBudget d)), (''items'', JArr (map js_of_item (items d)))]"

definition js_of_store :: "heap \<Rightarrow> store \<Rightarrow> jsval" where
  "js_of_store h s =
     JObj [(''months'', JObj (map (\<lambda>kd. (fst kd, js_of_month (snd kd))) (snapshot h s)))]"

text \<open>
  \<open>exportAll\<close>: the name and the content of the downloaded file,
  \<open>JSON.stringify(store, null, 2)\<close>.
\<close>

definition exportAll :: "state \<Rightarrow> string \<times> string" where
  "exportAll s =
     (''finance-'' @ activeMonth s @ ''.json'', stringify 2 0 (js_of_store (heap s) (store s)))"

text \<open>
  \<open>importAll\<close>: without a file nothing happens; otherwise the text of the file is parsed
  and, unless the parse or the check throws, the parsed value becomes the store.
\<close>

datatype import_result = NoFile | ImportFailed | Imported jsval

definition importAll :: "string option \<Rightarrow> import_result" where
  "importAll file =
     (case file of
        None \<Rightarrow> NoFile
      | Some text \<Rightarrow>
          (case JSON_parse text of
             None \<Rightarrow> ImportFailed
           | Some parsed \<Rightarrow>
               if \<not> truthy parsed \<or> \<not> typeof_object parsed \<or> \<not> truthy_opt (get_months parsed)
               then ImportFailed
               else Imported parsed))"

text \<open>A JavaScript object in the sense of \<open>typeof\<close>: an object or an array, not \<open>null\<close>.\<close>

fun is_object :: "jsval \<Rightarrow> bool" where
  "is_object (JObj kvs) = True"
| "is_object (JArr vs) = True"
| "is_object v = False"

text \<open>Two documents whose \<open>months\<close> is a string.\<close>

definition months_not_an_object :: string where
  "months_not_an_object = ''{\"months\": \"not-an-object\"}''"

definition months_x :: string where
  "months_x = ''{\"months\": \"x\"}''"

text \<open>A document whose \<open>months\<close> is an array, and one with a negative ceiling.\<close>

definition months_array :: string where
  "months_array = ''{\"months\": []}''"

definition negative_ceiling :: string where
  "negative_ceiling = ''{\"months\": {\"2024-01\": {\"maxBudget\": -7, \"items\": []}}}''"

subsection \<open>Values that survive serialisation\<close>

definition json_num :: "jsnum \<Rightarrow> bool" where
  "json_num n = (case n of Fin q \<Rightarrow> is_double q | _ \<Rightarrow> False)"

text \<open>
  \<open>json_clean v\<close>: every number in \<open>v\<close> is finite (a binary64 value, as every finite
  number of the program is), and no object has a key twice (which holds of every
  JavaScript object).
\<close>

fun json_clean :: "jsval \<Rightarrow> bool" where
  "json_clean (JNum n) = json_num n"
| "json_clean (JArr vs) = list_all json_clean vs"
| "json_clean (JObj kvs) = (distinct (map fst kvs) \<and> list_all (\<lambda>kv. json_clean (snd kv)) kvs)"
| "json_clean v = True"

text \<open>The tokens of the text of a value.\<close>

fun toks :: "jsval \<Rightarrow> token list" where
  "toks JNull = [TNull]"
| "toks (JBool b) = [if b then TTrue else TFalse]"
| "toks (JNum n) = (case n of Fin q \<Rightarrow> [TNum q] | _ \<Rightarrow> [TNull])"
| "toks (JStr s) = [TStr s]"
| "toks (JArr vs) = LBrack # join [Comma] (map toks vs) @ [RBrack]"
| "toks (JObj kvs) =
     LBrace # join [Comma] (map (\<lambda>kv. TStr (fst kv) # Colon # toks (snd kv)) kvs) @ [RBrace]"

text \<open>A text is delimited if it does not continue a word; \<open>prepend\<close> puts tokens in front.\<close>

definition delimited :: "string \<Rightarrow> bool" where
  "delimited rest = (case rest of [] \<Rightarrow> True | c # cs \<Rightarrow> \<not> is_word_char c)"

definition prepend :: "token list \<Rightarrow> token list option \<Rightarrow> token list option" where
  "prepend ts r = map_option ((@) ts) r"

text \<open>What the parser does once a value is complete.\<close>

definition continue :: "jsval \<Rightarrow> frame list \<Rightarrow> token list \<Rightarrow> jsval option" where
  "continue v st ts = (case put_value v st of None \<Rightarrow> None | Some (s', st') \<Rightarrow> parse_run s' st' ts)"

subsection \<open>Well-formed stores\<close>

text \<open>
  The invariants of the data model: an item has a non-empty trimmed name and a finite
  price above 0; a month has a finite ceiling that is not negative and no item id twice;
  the objects of the store are allocated and its month keys are distinct.
\<close>

definition item_ok :: "item \<Rightarrow> bool" where
  "item_ok it =
     (name it \<noteq> [] \<and> trim (name it) = name it \<and> json_num (price it) \<and> js_gt (price it) (Fin 0))"

definition month_ok :: "monthdata \<Rightarrow> bool" where
  "month_ok d =
     (json_num (maxBudget d) \<and> js_ge (maxBudget d) (Fin 0) \<and>
      list_all item_ok (items d) \<and> distinct (map item_id (items d)))"

text \<open>What the round trip needs of a store: the heap is in order and the numbers are finite.\<close>

definition exportable :: "state \<Rightarrow> bool" where
  "exportable s =
     (state_ok s \<and>
      list_all (\<lambda>kd. json_num (maxBudget (snd kd)) \<and>
                     list_all (\<lambda>it. json_num (price it)) (items (snd kd)))
        (snapshot (heap s) (store s)))"

definition well_formed :: "state \<Rightarrow> bool" where
  "well_formed s =
     (state_ok s \<and> list_all (\<lambda>kd. month_ok (snd kd)) (snapshot (heap s) (store s)))"

section \<open>Overage attribution\<close>

lemma overBudget_loop_length: "length (overBudget_loop mb r its) = length its"
  by (induction its arbitrary: r) (simp_all add: Let_def)

lemma overBudget_loop_nth:
  "i < length its \<Longrightarrow>
   overBudget_loop mb r its ! i =
     (let start = foldl js_add r (map (\<lambda>it. or_zero (price it)) (take i its));
          running = js_add start (or_zero (price (its ! i)))
      in js_gt mb (Fin 0) \<and> js_lt start mb \<and> js_gt running mb \<or> js_ge start mb)"
proof (induction its arbitrary: r i)
  case Nil
  then show ?case by simp
next
  case (Cons it its)
  show ?case
  proof (cases i)
    case 0
    then show ?thesis by (simp add: Let_def)
  next
    case (Suc j)
    with Cons.prems have "j < length its" by simp
    from Cons.IH [OF this] Suc show ?thesis by (simp add: Let_def)
  qed
qed

text \<open>
  The sums are those of the program: the prices \<open>0.1\<close> and \<open>0.2\<close> add up to a number
  above \<open>0.3\<close>, so the second item is flagged under that ceiling, and \<open>0.1\<close> and
  \<open>0.5\<close> add up to \<open>0.6\<close> exactly as binary64 has it, so no item is flagged under
  that ceiling.
\<close>

lemma overBudgetMap_binary64_sums:
  "js_add (Number ''0.1'') (Number ''0.2'') = Fin (1351079888211149 / 4503599627370496)"
  "Number ''0.3'' = Fin (5404319552844595 / 18014398509481984)"
  "overBudgetMap
     [\<lparr>item_id = ''a'', name = ''x'', price = Number ''0.1'', createdAt = ''t''\<rparr>,
      \<lparr>item_id = ''b'', name = ''y'', price = Number ''0.2'', createdAt = ''t''\<rparr>]
     (or_zero (Number ''0.3'')) = [False, True]"
  "overBudgetMap
     [\<lparr>item_id = ''a'', name = ''x'', price = Number ''0.1'', createdAt = ''t''\<rparr>,
      \<lparr>item_id = ''b'', name = ''y'', price = Number ''0.5'', createdAt = ''t''\<rparr>]
     (or_zero (Number ''0.6'')) = [False, False]"
  by code_simp+

text \<open>
  C1 (as the code behaves). The guard \<open>maxBudget > 0\<close> covers the first disjunct
  only. With a ceiling of zero the second disjunct \<open>start >= maxBudget\<close> holds from
  the first item on, so the prices 50, 60, 40 are all flagged although no ceiling is set.
\<close>

theorem overBudgetMap_zero_budget_all_flagged:
  "overBudgetMap [priced 50, priced 60, priced 40] (Fin 0) = [True, True, True]"
  by code_simp

text \<open>
  C2. \<open>overBudgetMap\<close> yields one flag per item, in input order; the flag of the item at
  position \<open>i\<close> is true exactly when
  (\<open>maxBudget > 0\<close> and \<open>start < maxBudget\<close> and \<open>running > maxBudget\<close>) or
  \<open>start >= maxBudget\<close>, where \<open>start\<close> is the sum of the prices in front of it and
  \<open>running = start + price\<close> (each price read as \<open>Number(it.price) || 0\<close>, and each sum
  the binary64 sum \<open>js_add\<close>, as the code computes them). The prices 50, 60, 40 under
  a ceiling of 100 give false, true, true.
\<close>

theorem overBudgetMap_flags:
  "length (overBudgetMap its mb) = length its \<and>
   (\<forall>i < length its.
      overBudgetMap its mb ! i =
        (let start = running_before its i;
             running = js_add start (or_zero (price (its ! i)))
         in js_gt mb (Fin 0) \<and> js_lt start mb \<and> js_gt running mb \<or> js_ge start mb)) \<and>
   overBudgetMap [priced 50, priced 60, priced 40] (Fin 100) = [False, True, True]"
proof (intro conjI allI impI)
  show "length (overBudgetMap its mb) = length its"
    by (simp add: overBudgetMap_def overBudget_loop_length)
next
  fix i assume "i < length its"
  then show "overBudgetMap its mb ! i =
        (let start = running_before its i;
             running = js_add start (or_zero (price (its ! i)))
         in js_gt mb (Fin 0) \<and> js_lt start mb \<and> js_gt running mb \<or> js_ge start mb)"
    by (simp add: overBudgetMap_def running_before_def overBudget_loop_nth)
next
  show "overBudgetMap [priced 50, priced 60, priced 40] (Fin 100) = [False, True, True]"
    by code_simp
qed

theorem overBudgetMap_flags_witness:
  "(1::nat) < length [priced 50, priced 60, priced 40] \<and>
   overBudgetMap [priced 50, priced 60, priced 40] (Fin 100) ! 1 = True \<and>
   running_before [priced 50, priced 60, priced 40] 1 = Fin 50"
proof -
  have r: "running_before [priced 50, priced 60, priced 40] 1 = Fin 50"
    by code_simp
  from overBudgetMap_flags [of "[priced 50, priced 60, priced 40]" "Fin 100"] r
  show ?thesis by simp
qed

text \<open>
  C10. The exceeding flag is true if and only if \<open>total > maxBudget\<close> and
  \<open>maxBudget > 0\<close>; a zero or negative ceiling never gives true, whatever the total;
  a total of 150 exceeds a ceiling of 100, a total of 80 does not exceed a ceiling of 0.
\<close>

theorem exceeding_iff:
  "(exceeding tot mb \<longleftrightarrow> js_gt tot mb \<and> js_gt mb (Fin 0)) \<and>
   (js_le mb (Fin 0) \<longrightarrow> \<not> exceeding tot mb) \<and>
   exceeding (Fin 150) (Fin 100) \<and> \<not> exceeding (Fin 80) (Fin 0)"
  by (auto simp add: exceeding_def js_gt_def js_le_def)

theorem exceeding_iff_witness:
  "js_le (Fin (-20)) (Fin 0) \<and> \<not> exceeding (Fin 150) (Fin (-20))"
  using exceeding_iff [of "Fin 150" "Fin (-20)"]
  by (simp add: js_le_def js_gt_def)

section \<open>Frame lemmas for the heap\<close>

lemma snd_set_update: "snd ` set (AList.update k a al) \<subseteq> insert a (snd ` set al)"
  by (induction al) auto

lemma distinct_snd_update:
  "distinct (map snd al) \<Longrightarrow> a \<notin> snd ` set al \<Longrightarrow> distinct (map snd (AList.update k a al))"
proof (induction al)
  case Nil
  then show ?case by simp
next
  case (Cons p al)
  have "snd p \<notin> snd ` set (AList.update k a al)" if "fst p \<noteq> k"
    using Cons.prems snd_set_update [of k a al] by auto
  with Cons show ?case by auto
qed

lemma list_all_update:
  "list_all (\<lambda>(k, a). P a) al \<Longrightarrow> P a \<Longrightarrow> list_all (\<lambda>(k, a). P a) (AList.update k a al)"
  by (induction al) auto

lemma store_ok_fresh:
  "store_ok h s \<Longrightarrow> (k, a) \<in> set (monthsObjs h (months s)) \<Longrightarrow> a < next_addr h"
  by (auto simp add: store_ok_def list_all_iff)

lemma get_month_allocated:
  "store_ok h s \<Longrightarrow> get_month h s k = Some a \<Longrightarrow> a < next_addr h"
  by (auto simp add: get_month_def dest: map_of_SomeD store_ok_fresh)

lemma snapshot_cong:
  "monthsObjs h' (months s) = monthsObjs h (months s) \<Longrightarrow>
   (\<And>k a. (k, a) \<in> set (monthsObjs h (months s)) \<Longrightarrow> dataObjs h' a = dataObjs h a) \<Longrightarrow>
   snapshot h' s = snapshot h s"
  by (auto simp add: snapshot_def)

lemma map_of_snapshot: "map_of (snapshot h s) k = month_data h s k"
  by (simp add: snapshot_def month_data_def get_month_def map_of_map)

lemma unshared:
  "store_ok h s \<Longrightarrow> get_month h s k = Some a \<Longrightarrow> get_month h s k' = Some a \<Longrightarrow> k' = k"
proof -
  assume ok: "store_ok h s" and 1: "get_month h s k = Some a" and 2: "get_month h s k' = Some a"
  let ?al = "monthsObjs h (months s)"
  from 1 2 have "(k, a) \<in> set ?al" "(k', a) \<in> set ?al"
    by (auto simp add: get_month_def dest: map_of_SomeD)
  moreover from ok have "distinct (map snd ?al)" by (simp add: store_ok_def)
  ultimately show "k' = k"
    by (metis (no_types, lifting) distinct_map inj_on_def prod.collapse prod.inject snd_conv)
qed

subsection \<open>The copying updater\<close>

lemma replace_items_Some:
  assumes "replace_items f k h prev = Some (h', nxt)"
  obtains c where
    "get_month h prev k = Some c"
    "nxt = \<lparr>months = next_addr h\<rparr>"
    "h' = \<lparr>monthsObjs = (monthsObjs h)
              (next_addr h := AList.update k (Suc (next_addr h)) (monthsObjs h (months prev))),
           dataObjs = (dataObjs h)
              (Suc (next_addr h) := (dataObjs h c)\<lparr>items := f (items (dataObjs h c))\<rparr>),
           next_addr = Suc (Suc (next_addr h))\<rparr>"
  using assms
  by (auto simp add: replace_items_def new_months_def new_data_def set_month_def get_month_def
        Let_def split: option.splits)

lemma replace_items_None:
  "replace_items f k h prev = None \<longleftrightarrow> get_month h prev k = None"
  by (auto simp add: replace_items_def new_months_def new_data_def set_month_def get_month_def
        Let_def split: option.splits)

lemma replace_items_prior:
  assumes ok: "store_ok h prev" and r: "replace_items f k h prev = Some (h', nxt)"
  shows "snapshot h' prev = snapshot h prev"
proof -
  from r obtain c where h': "h' = \<lparr>monthsObjs = (monthsObjs h)
              (next_addr h := AList.update k (Suc (next_addr h)) (monthsObjs h (months prev))),
           dataObjs = (dataObjs h)
              (Suc (next_addr h) := (dataObjs h c)\<lparr>items := f (items (dataObjs h c))\<rparr>),
           next_addr = Suc (Suc (next_addr h))\<rparr>"
    by (rule replace_items_Some)
  from ok have m: "months prev \<noteq> next_addr h" by (auto simp add: store_ok_def)
  show ?thesis
  proof (rule snapshot_cong)
    show "monthsObjs h' (months prev) = monthsObjs h (months prev)"
      using m by (simp add: h')
  next
    fix k' a assume "(k', a) \<in> set (monthsObjs h (months prev))"
    with ok have "a < next_addr h" by (rule store_ok_fresh)
    then show "dataObjs h' a = dataObjs h a" by (simp add: h')
  qed
qed

lemma replace_items_month:
  assumes ok: "store_ok h prev" and r: "replace_items f k h prev = Some (h', nxt)"
  shows "month_data h' nxt k' =
           (if k' = k then map_option (\<lambda>d. d\<lparr>items := f (items d)\<rparr>) (month_data h prev k)
            else month_data h prev k')"
proof -
  from r obtain c where c: "get_month h prev k = Some c" and n: "nxt = \<lparr>months = next_addr h\<rparr>"
    and h': "h' = \<lparr>monthsObjs = (monthsObjs h)
              (next_addr h := AList.update k (Suc (next_addr h)) (monthsObjs h (months prev))),
           dataObjs = (dataObjs h)
              (Suc (next_addr h) := (dataObjs h c)\<lparr>items := f (items (dataObjs h c))\<rparr>),
           next_addr = Suc (Suc (next_addr h))\<rparr>"
    by (rule replace_items_Some)
  show ?thesis
  proof (cases "k' = k")
    case True
    then show ?thesis
      using c by (simp add: month_data_def get_month_def n h' update_conv')
  next
    case False
    have "dataObjs h' a = dataObjs h a" if "get_month h prev k' = Some a" for a
      using get_month_allocated [OF ok that] by (simp add: h')
    with False show ?thesis
      by (cases "get_month h prev k'") (auto simp add: month_data_def get_month_def n h' update_conv')
  qed
qed

lemma replace_items_ok:
  assumes ok: "store_ok h prev" and r: "replace_items f k h prev = Some (h', nxt)"
  shows "store_ok h' nxt"
proof -
  from r obtain c where n: "nxt = \<lparr>months = next_addr h\<rparr>"
    and h': "h' = \<lparr>monthsObjs = (monthsObjs h)
              (next_addr h := AList.update k (Suc (next_addr h)) (monthsObjs h (months prev))),
           dataObjs = (dataObjs h)
              (Suc (next_addr h) := (dataObjs h c)\<lparr>items := f (items (dataObjs h c))\<rparr>),
           next_addr = Suc (Suc (next_addr h))\<rparr>"
    by (rule replace_items_Some)
  let ?al = "monthsObjs h (months prev)"
  from ok have lt: "list_all (\<lambda>(k, a). a < next_addr h) ?al" and d1: "distinct (map fst ?al)"
    and d2: "distinct (map snd ?al)"
    by (simp_all add: store_ok_def)
  from lt have "list_all (\<lambda>(k, a). a < Suc (Suc (next_addr h))) ?al"
    by (auto simp add: list_all_iff)
  then have 1: "list_all (\<lambda>(k, a). a < Suc (Suc (next_addr h))) (AList.update k (Suc (next_addr h)) ?al)"
    by (rule list_all_update) simp
  from lt have "Suc (next_addr h) \<notin> snd ` set ?al"
    by (auto simp add: list_all_iff)
  with d2 have 2: "distinct (map snd (AList.update k (Suc (next_addr h)) ?al))"
    by (rule distinct_snd_update)
  from d1 have 3: "distinct (map fst (AList.update k (Suc (next_addr h)) ?al))"
    by (rule distinct_update)
  from 1 2 3 show ?thesis by (simp add: store_ok_def n h')
qed

subsection \<open>The sharing updaters\<close>

lemma store_eta: "\<lparr>months = months (p :: store)\<rparr> = p"
  by (cases p) simp

lemma updateBudget_upd_Some:
  assumes "updateBudget_upd n k h prev = Some (h', nxt)"
  obtains m where
    "get_month h prev k = Some m"
    "nxt = prev"
    "h' = h\<lparr>dataObjs := (dataObjs h)
             (m := (dataObjs h m)\<lparr>maxBudget := (if isNaN n then Fin 0 else n)\<rparr>)\<rparr>"
  using assms
  by (auto simp add: updateBudget_upd_def get_month_def Let_def store_eta split: option.splits)

lemma updateBudget_upd_month:
  assumes ok: "store_ok h prev" and r: "updateBudget_upd n k h prev = Some (h', nxt)"
  shows "month_data h' nxt k' =
           (if k' = k
            then map_option (\<lambda>d. d\<lparr>maxBudget := (if isNaN n then Fin 0 else n)\<rparr>) (month_data h prev k)
            else month_data h prev k')"
proof -
  from r obtain m where m: "get_month h prev k = Some m" and n: "nxt = prev"
    and h': "h' = h\<lparr>dataObjs := (dataObjs h)
             (m := (dataObjs h m)\<lparr>maxBudget := (if isNaN n then Fin 0 else n)\<rparr>)\<rparr>"
    by (rule updateBudget_upd_Some)
  show ?thesis
  proof (cases "k' = k")
    case True
    then show ?thesis using m by (simp add: month_data_def get_month_def n h')
  next
    case False
    have "a \<noteq> m" if "get_month h prev k' = Some a" for a
      using unshared [OF ok m, of k'] that False by auto
    with False show ?thesis
      by (cases "get_month h prev k'") (auto simp add: month_data_def get_month_def n h')
  qed
qed

lemma updateBudget_upd_ok:
  "store_ok h prev \<Longrightarrow> updateBudget_upd n k h prev = Some (h', nxt) \<Longrightarrow> store_ok h' nxt"
  by (erule updateBudget_upd_Some) (simp add: store_ok_def)

lemma fresh_data_month:
  assumes ok: "store_ok h prev"
  shows "month_data (set_month (months prev) k (next_addr h) (snd (new_data d h))) prev k' =
           (if k' = k then Some d else month_data h prev k')"
proof (cases "k' = k")
  case True
  then show ?thesis
    by (simp add: month_data_def get_month_def set_month_def new_data_def update_conv')
next
  case False
  have "a \<noteq> next_addr h" if "get_month h prev k' = Some a" for a
    using get_month_allocated [OF ok that] by simp
  with False show ?thesis
    by (cases "get_month h prev k'")
      (auto simp add: month_data_def get_month_def set_month_def new_data_def update_conv')
qed

lemma fresh_data_ok:
  assumes ok: "store_ok h prev"
  shows "store_ok (set_month (months prev) k (next_addr h) (snd (new_data d h))) prev"
proof -
  let ?al = "monthsObjs h (months prev)"
  from ok have lt: "list_all (\<lambda>(k, a). a < next_addr h) ?al" and d1: "distinct (map fst ?al)"
    and d2: "distinct (map snd ?al)" and m: "months prev < next_addr h"
    by (simp_all add: store_ok_def)
  from lt have "list_all (\<lambda>(k, a). a < Suc (next_addr h)) ?al"
    by (auto simp add: list_all_iff)
  then have 1: "list_all (\<lambda>(k, a). a < Suc (next_addr h)) (AList.update k (next_addr h) ?al)"
    by (rule list_all_update) simp
  from lt have "next_addr h \<notin> snd ` set ?al"
    by (auto simp add: list_all_iff)
  with d2 have 2: "distinct (map snd (AList.update k (next_addr h) ?al))"
    by (rule distinct_snd_update)
  from d1 have 3: "distinct (map fst (AList.update k (next_addr h) ?al))"
    by (rule distinct_update)
  from 1 2 3 m show ?thesis by (simp add: store_ok_def set_month_def new_data_def)
qed

lemma resetMonth_upd_eq:
  "resetMonth_upd k h prev =
     Some (set_month (months prev) k (next_addr h)
             (snd (new_data \<lparr>maxBudget = Fin 0, items = []\<rparr> h)), prev)"
  by (simp add: resetMonth_upd_def new_data_def Let_def store_eta)

lemma ensureMonth_upd_eq:
  "ensureMonth_upd k h prev =
     (case get_month h prev k of
        None \<Rightarrow> Some (set_month (months prev) k (next_addr h)
                        (snd (new_data \<lparr>maxBudget = Fin 0, items = []\<rparr> h)), prev)
      | Some a \<Rightarrow> Some (h, prev))"
  by (simp add: ensureMonth_upd_def new_data_def Let_def get_month_def store_eta split: option.splits)

subsection \<open>What each action does to the months of the state\<close>

lemma setStore_cases:
  obtains (threw) "upd (heap s) (store s) = None" "setStore upd s = (TypeError, s)"
  | (ran) h' st' where "upd (heap s) (store s) = Some (h', st')"
      "setStore upd s = (Done, s\<lparr>heap := h', store := st'\<rparr>)"
  by (cases "upd (heap s) (store s)") (auto simp add: setStore_def)

lemma copying_month_of:
  assumes "state_ok s"
  shows "month_of (snd (setStore (replace_items f (activeMonth s)) s)) k' =
           (if k' = activeMonth s
            then map_option (\<lambda>d. d\<lparr>items := f (items d)\<rparr>) (month_of s k')
            else month_of s k')"
proof (cases rule: setStore_cases [of "replace_items f (activeMonth s)" s])
  case threw
  then have "month_of s (activeMonth s) = None"
    by (simp add: replace_items_None month_of_def month_data_def)
  with threw show ?thesis by auto
next
  case (ran h' st')
  with assms replace_items_month [of "heap s" "store s" f "activeMonth s" h' st' k']
  show ?thesis by (simp add: month_of_def state_ok_def)
qed

lemma copying_ok:
  assumes "state_ok s"
  shows "state_ok (snd (setStore (replace_items f (activeMonth s)) s))"
proof (cases rule: setStore_cases [of "replace_items f (activeMonth s)" s])
  case threw
  with assms show ?thesis by simp
next
  case (ran h' st')
  with assms replace_items_ok [of "heap s" "store s" f "activeMonth s" h' st']
  show ?thesis by (simp add: state_ok_def)
qed

lemma copying_prior:
  assumes "state_ok s"
  shows "snapshot (heap (snd (setStore (replace_items f (activeMonth s)) s))) (store s) =
         snapshot (heap s) (store s)"
proof (cases rule: setStore_cases [of "replace_items f (activeMonth s)" s])
  case threw
  then show ?thesis by simp
next
  case (ran h' st')
  with assms replace_items_prior [of "heap s" "store s" f "activeMonth s" h' st']
  show ?thesis by (simp add: state_ok_def)
qed

lemma copying_result:
  "fst (setStore (replace_items f (activeMonth s)) s) =
     (if month_of s (activeMonth s) = None then TypeError else Done)"
  by (cases rule: setStore_cases [of "replace_items f (activeMonth s)" s])
    (auto simp add: replace_items_None month_of_def month_data_def dest: replace_items_Some)

lemma copying_threw:
  "fst (setStore (replace_items f (activeMonth s)) s) \<noteq> Done \<Longrightarrow>
   snd (setStore (replace_items f (activeMonth s)) s) = s"
  by (cases rule: setStore_cases [of "replace_items f (activeMonth s)" s]) auto

lemma updateBudget_month_of:
  assumes "state_ok s"
  shows "month_of (snd (updateBudget val s)) k' =
           (if k' = activeMonth s
            then map_option (\<lambda>d. d\<lparr>maxBudget := (if isNaN (Number val) then Fin 0 else Number val)\<rparr>)
                   (month_of s k')
            else month_of s k')"
proof (cases rule: setStore_cases [of "updateBudget_upd (Number val) (activeMonth s)" s])
  case threw
  then have "month_of s (activeMonth s) = None"
    by (simp add: updateBudget_upd_def month_of_def month_data_def Let_def store_eta split: option.splits)
  with threw show ?thesis by (auto simp add: updateBudget_def)
next
  case (ran h' st')
  with assms updateBudget_upd_month [of "heap s" "store s" "Number val" "activeMonth s" h' st' k']
  show ?thesis by (simp add: month_of_def state_ok_def updateBudget_def)
qed

lemma resetMonth_month_of:
  assumes "state_ok s"
  shows "month_of (snd (resetMonth c s)) k' =
           (if c \<and> k' = activeMonth s then Some \<lparr>maxBudget = Fin 0, items = []\<rparr> else month_of s k')"
proof (cases c)
  case True
  with assms fresh_data_month [of "heap s" "store s" "activeMonth s" "\<lparr>maxBudget = Fin 0, items = []\<rparr>" k']
  show ?thesis
    by (cases "k' = activeMonth s")
      (simp_all add: resetMonth_def setStore_def resetMonth_upd_eq month_of_def state_ok_def)
next
  case False
  then show ?thesis by (simp add: resetMonth_def)
qed

lemma ensureMonth_month_of:
  assumes "state_ok s"
  shows "month_of (snd (ensureMonth s)) k' =
           (if k' = activeMonth s \<and> month_of s k' = None
            then Some \<lparr>maxBudget = Fin 0, items = []\<rparr> else month_of s k')"
  using assms fresh_data_month [of "heap s" "store s" "activeMonth s" "\<lparr>maxBudget = Fin 0, items = []\<rparr>" k']
  by (cases "get_month (heap s) (store s) (activeMonth s)")
    (auto simp add: ensureMonth_def setStore_def ensureMonth_upd_eq month_of_def state_ok_def
      month_data_def)

lemma addItem_month_of:
  assumes "state_ok s"
  shows "month_of (snd (addItem uuid now s)) k' =
           (if k' = activeMonth s \<and> fst (addItem uuid now s) = Done
            then map_option
                   (\<lambda>d. d\<lparr>items := items d @
                      [\<lparr>item_id = uuid, name = trim (newName s), price = Number (newPrice s),
                        createdAt = now\<rparr>]\<rparr>) (month_of s k')
            else month_of s k')"
proof -
  let ?f = "\<lambda>its. its @ [\<lparr>item_id = uuid, name = trim (newName s), price = Number (newPrice s),
                        createdAt = now\<rparr>]"
  let ?r = "setStore (replace_items ?f (activeMonth s)) s"
  have split: "(case ?r of (Done, s') \<Rightarrow> (Done, s'\<lparr>newName := [], newPrice := []\<rparr>) | (r, s') \<Rightarrow> (r, s'))
     = (if fst ?r = Done then (Done, (snd ?r)\<lparr>newName := [], newPrice := []\<rparr>) else ?r)"
    by (cases ?r) (auto split: result.splits)
  have m: "month_of (st\<lparr>newName := x\<rparr>) k = month_of st k"
    "month_of (st\<lparr>newPrice := x\<rparr>) k = month_of st k" for st x k
    by (simp_all add: month_of_def)
  from copying_month_of [OF assms, of ?f k'] copying_threw [of ?f s] show ?thesis
    by (auto simp add: addItem_def Let_def split m copying_result split: if_splits)
qed

section \<open>Claims about the actions\<close>

lemma Number_examples:
  "Number ''-5'' = Fin (- 5)" "Number ''abc'' = NaN" "Number ''Infinity'' = PosInf"
  "Number ''4.5'' = Fin (9 / 2)" "Number ''500'' = Fin 500"
  by code_simp+

lemmas num_eval = Number_examples trim_def is_space_def

lemmas action_eval =
  addItem_def removeItem_def updateItem_def updateBudget_def resetMonth_def ensureMonth_def
  setStore_def replace_items_def updateBudget_upd_def resetMonth_upd_def ensureMonth_upd_def
  new_months_def new_data_def set_month_def get_month_def snapshot_def month_data_def
  month_of_def state_ok_def store_ok_def state0_def heap0_def isNaN_def js_le_def js_ge_def
  js_gt_def Let_def

lemma state0_ok: "state_ok state0"
  by (simp add: state_ok_def store_ok_def state0_def heap0_def)

text \<open>
  The copying actions leave the prior snapshot as it was (the behaviour \<open>updateBudget\<close>
  and \<open>resetMonth\<close> miss).
\<close>

lemma copying_actions_keep_prior:
  assumes "state_ok s"
  shows "snapshot (heap (snd (addItem uuid now s))) (store s) = snapshot (heap s) (store s)"
    and "snapshot (heap (snd (removeItem c i s))) (store s) = snapshot (heap s) (store s)"
    and "snapshot (heap (snd (updateItem i f s))) (store s) = snapshot (heap s) (store s)"
proof -
  let ?f = "\<lambda>its. its @ [\<lparr>item_id = uuid, name = trim (newName s), price = Number (newPrice s),
                        createdAt = now\<rparr>]"
  let ?r = "setStore (replace_items ?f (activeMonth s)) s"
  have "heap (snd (addItem uuid now s)) = heap s \<or> heap (snd (addItem uuid now s)) = heap (snd ?r)"
    by (cases ?r) (auto simp add: addItem_def Let_def split: result.splits)
  with copying_prior [OF assms, of ?f]
  show "snapshot (heap (snd (addItem uuid now s))) (store s) = snapshot (heap s) (store s)"
    by auto
  show "snapshot (heap (snd (removeItem c i s))) (store s) = snapshot (heap s) (store s)"
    using copying_prior [OF assms] by (simp add: removeItem_def)
  show "snapshot (heap (snd (updateItem i f s))) (store s) = snapshot (heap s) (store s)"
    using copying_prior [OF assms] by (simp add: updateItem_def)
qed

text \<open>
  C3 (as the code behaves). \<open>updateBudget\<close> assigns to \<open>maxBudget\<close> of the month
  object that the prior store still refers to, and \<open>resetMonth\<close> assigns to the
  \<open>months\<close> object that both stores share: read through the heap after the call, the
  prior store shows the new ceiling 500, respectively the emptied month.
\<close>

theorem updateBudget_resetMonth_change_prior_store:
  "snapshot (heap state0) (store state0) =
     [(''2024-01'', \<lparr>maxBudget = Fin 100,
         items = [\<lparr>item_id = ''a'', name = ''rent'', price = Fin 30, createdAt = ''t0''\<rparr>]\<rparr>),
      (''2024-02'', \<lparr>maxBudget = Fin 50,
         items = [\<lparr>item_id = ''b'', name = ''gym'', price = Fin 20, createdAt = ''t1''\<rparr>]\<rparr>)] \<and>
   snapshot (heap (snd (updateBudget ''500'' state0))) (store state0) =
     [(''2024-01'', \<lparr>maxBudget = Fin 500,
         items = [\<lparr>item_id = ''a'', name = ''rent'', price = Fin 30, createdAt = ''t0''\<rparr>]\<rparr>),
      (''2024-02'', \<lparr>maxBudget = Fin 50,
         items = [\<lparr>item_id = ''b'', name = ''gym'', price = Fin 20, createdAt = ''t1''\<rparr>]\<rparr>)] \<and>
   snapshot (heap (snd (resetMonth True state0))) (store state0) =
     [(''2024-01'', \<lparr>maxBudget = Fin 0, items = []\<rparr>),
      (''2024-02'', \<lparr>maxBudget = Fin 50,
         items = [\<lparr>item_id = ''b'', name = ''gym'', price = Fin 20, createdAt = ''t1''\<rparr>]\<rparr>)]"
  by (simp add: action_eval num_eval)

text \<open>
  C4 (as stated) fails: the price text \<open>Infinity\<close> converts to the number
  \<open>Infinity\<close>, which is neither \<open>NaN\<close> nor \<open><= 0\<close>, so the item is added.
\<close>

theorem addItem_accepts_Infinity:
  "Number ''Infinity'' = PosInf \<and>
   fst (addItem ''u'' ''now'' (state0\<lparr>newPrice := ''Infinity''\<rparr>)) = Done \<and>
   month_of (snd (addItem ''u'' ''now'' (state0\<lparr>newPrice := ''Infinity''\<rparr>))) ''2024-01'' =
     Some \<lparr>maxBudget = Fin 100,
       items = [\<lparr>item_id = ''a'', name = ''rent'', price = Fin 30, createdAt = ''t0''\<rparr>,
                \<lparr>item_id = ''u'', name = ''milk'', price = PosInf, createdAt = ''now''\<rparr>]\<rparr>"
  by (simp add: action_eval num_eval)

text \<open>
  C4 (amended). In a state whose store is well-formed in the heap, \<open>addItem\<close> returns
  early exactly when the name is empty after trimming
  or \<open>Number(newPrice)\<close> is not greater than 0 (it is \<open>NaN\<close>, zero or negative); so
  the prices \<open>-5\<close> and \<open>abc\<close> and the empty name are rejected. After an early return
  the state is unchanged. \<open>addItem\<close> runs to its end exactly when the input is accepted
  and the active month exists, and then the new item, with the trimmed name and the
  converted price, is appended to the month's items, the ceiling and the prior items
  staying as they were.
\<close>

theorem addItem_validation:
  "state_ok s \<longrightarrow>
   (fst (addItem uuid now s) \<in> {EmptyName, BadPrice} \<longleftrightarrow>
      trim (newName s) = [] \<or> \<not> js_gt (Number (newPrice s)) (Fin 0)) \<and>
   (fst (addItem uuid now s) \<in> {EmptyName, BadPrice} \<longrightarrow> snd (addItem uuid now s) = s) \<and>
   (fst (addItem uuid now s) = Done \<longleftrightarrow>
      trim (newName s) \<noteq> [] \<and> js_gt (Number (newPrice s)) (Fin 0) \<and>
      month_of s (activeMonth s) \<noteq> None) \<and>
   (fst (addItem uuid now s) = Done \<longrightarrow>
      (\<exists>d. month_of s (activeMonth s) = Some d \<and>
        month_of (snd (addItem uuid now s)) (activeMonth s) =
          Some (d\<lparr>items := items d @
            [\<lparr>item_id = uuid, name = trim (newName s), price = Number (newPrice s),
              createdAt = now\<rparr>]\<rparr>))) \<and>
   fst (addItem uuid now (state0\<lparr>newPrice := ''-5''\<rparr>)) = BadPrice \<and>
   fst (addItem uuid now (state0\<lparr>newPrice := ''abc''\<rparr>)) = BadPrice \<and>
   fst (addItem uuid now (state0\<lparr>newName := []\<rparr>)) = EmptyName"
proof (intro impI conjI)
  let ?f = "\<lambda>its. its @ [\<lparr>item_id = uuid, name = trim (newName s), price = Number (newPrice s),
                        createdAt = now\<rparr>]"
  let ?r = "setStore (replace_items ?f (activeMonth s)) s"
  let ?bad = "trim (newName s) = [] \<or> \<not> js_gt (Number (newPrice s)) (Fin 0)"
  have gt: "\<not> js_gt p (Fin 0) \<longleftrightarrow> isNaN p \<or> js_le p (Fin 0)" for p
    by (cases p) (auto simp add: js_gt_def js_le_def isNaN_def)
  have fst_eq: "fst (addItem uuid now s) =
      (if trim (newName s) = [] then EmptyName
       else if \<not> js_gt (Number (newPrice s)) (Fin 0) then BadPrice
       else fst ?r)"
    by (cases ?r) (auto simp add: addItem_def Let_def gt split: result.splits)
  have r: "fst ?r = (if month_of s (activeMonth s) = None then TypeError else Done)"
    by (rule copying_result)
  show bad_iff: "fst (addItem uuid now s) \<in> {EmptyName, BadPrice} \<longleftrightarrow> ?bad"
    by (auto simp add: fst_eq r)
  show done_iff: "fst (addItem uuid now s) = Done \<longleftrightarrow>
      trim (newName s) \<noteq> [] \<and> js_gt (Number (newPrice s)) (Fin 0) \<and>
      month_of s (activeMonth s) \<noteq> None"
    by (auto simp add: fst_eq r)
  show "snd (addItem uuid now s) = s" if "fst (addItem uuid now s) \<in> {EmptyName, BadPrice}"
  proof -
    from that bad_iff have ?bad by simp
    then show ?thesis by (auto simp add: addItem_def Let_def gt)
  qed
  show "\<exists>d. month_of s (activeMonth s) = Some d \<and>
        month_of (snd (addItem uuid now s)) (activeMonth s) = Some (d\<lparr>items := ?f (items d)\<rparr>)"
    if ok: "state_ok s" and d: "fst (addItem uuid now s) = Done"
  proof -
    from d done_iff obtain d0 where "month_of s (activeMonth s) = Some d0" by auto
    with addItem_month_of [OF ok, of uuid now "activeMonth s"] d show ?thesis by simp
  qed
  show "fst (addItem uuid now (state0\<lparr>newPrice := ''-5''\<rparr>)) = BadPrice"
    by (simp add: addItem_def state0_def num_eval isNaN_def js_le_def)
  show "fst (addItem uuid now (state0\<lparr>newPrice := ''abc''\<rparr>)) = BadPrice"
    by (simp add: addItem_def state0_def num_eval isNaN_def js_le_def)
  show "fst (addItem uuid now (state0\<lparr>newName := []\<rparr>)) = EmptyName"
    by (simp add: addItem_def state0_def num_eval)
qed

theorem addItem_validation_witness:
  "state_ok state0 \<and> trim (newName state0) = ''milk'' \<and> Number (newPrice state0) = Fin (9 / 2) \<and>
   fst (addItem ''u'' ''now'' state0) = Done \<and>
   month_of (snd (addItem ''u'' ''now'' state0)) ''2024-01'' =
     Some \<lparr>maxBudget = Fin 100,
       items = [\<lparr>item_id = ''a'', name = ''rent'', price = Fin 30, createdAt = ''t0''\<rparr>,
                \<lparr>item_id = ''u'', name = ''milk'', price = Fin (9 / 2), createdAt = ''now''\<rparr>]\<rparr>"
proof -
  have n: "trim (newName state0) = ''milk''" "Number (newPrice state0) = Fin (9 / 2)"
    by (simp_all add: state0_def num_eval)
  have m: "month_of state0 (activeMonth state0) =
     Some \<lparr>maxBudget = Fin 100,
       items = [\<lparr>item_id = ''a'', name = ''rent'', price = Fin 30, createdAt = ''t0''\<rparr>]\<rparr>"
    "activeMonth state0 = ''2024-01''"
    by (simp_all add: state0_def heap0_def month_of_def month_data_def get_month_def)
  from addItem_validation [of state0 "''u''" "''now''"] state0_ok n m
  show ?thesis by (simp add: js_gt_def)
qed

subsection \<open>Well-formedness is kept\<close>

lemma state_ok_fields:
  "state_ok (s\<lparr>newName := x\<rparr>) = state_ok s" "state_ok (s\<lparr>newPrice := x\<rparr>) = state_ok s"
  by (simp_all add: state_ok_def)

lemma addItem_ok: "state_ok s \<Longrightarrow> state_ok (snd (addItem uuid now s))"
proof -
  assume ok: "state_ok s"
  let ?f = "\<lambda>its. its @ [\<lparr>item_id = uuid, name = trim (newName s), price = Number (newPrice s),
                        createdAt = now\<rparr>]"
  let ?r = "setStore (replace_items ?f (activeMonth s)) s"
  have "snd (addItem uuid now s) = s \<or> snd (addItem uuid now s) = snd ?r
      \<or> snd (addItem uuid now s) = (snd ?r)\<lparr>newName := [], newPrice := []\<rparr>"
    by (cases ?r) (auto simp add: addItem_def Let_def split: result.splits)
  with ok copying_ok [OF ok, of ?f] show ?thesis
    by (auto simp add: state_ok_fields)
qed

lemma removeItem_ok: "state_ok s \<Longrightarrow> state_ok (snd (removeItem c i s))"
  using copying_ok [of s] by (simp add: removeItem_def)

lemma updateItem_ok: "state_ok s \<Longrightarrow> state_ok (snd (updateItem i f s))"
  using copying_ok [of s] by (simp add: updateItem_def)

lemma updateBudget_ok: "state_ok s \<Longrightarrow> state_ok (snd (updateBudget val s))"
proof (cases rule: setStore_cases [of "updateBudget_upd (Number val) (activeMonth s)" s])
  case threw
  assume "state_ok s"
  with threw show ?thesis by (simp add: updateBudget_def)
next
  case (ran h' st')
  assume "state_ok s"
  with ran updateBudget_upd_ok [of "heap s" "store s" "Number val" "activeMonth s" h' st']
  show ?thesis by (simp add: updateBudget_def state_ok_def)
qed

lemma resetMonth_ok: "state_ok s \<Longrightarrow> state_ok (snd (resetMonth c s))"
  using fresh_data_ok [of "heap s" "store s" "activeMonth s" "\<lparr>maxBudget = Fin 0, items = []\<rparr>"]
  by (simp add: resetMonth_def setStore_def resetMonth_upd_eq state_ok_def)

lemma ensureMonth_ok: "state_ok s \<Longrightarrow> state_ok (snd (ensureMonth s))"
  using fresh_data_ok [of "heap s" "store s" "activeMonth s" "\<lparr>maxBudget = Fin 0, items = []\<rparr>"]
  by (cases "get_month (heap s) (store s) (activeMonth s)")
    (simp_all add: ensureMonth_def setStore_def ensureMonth_upd_eq state_ok_def)

lemma init_state_ok: "state_ok (init_state k)"
  by (simp add: state_ok_def store_ok_def init_state_def)

lemma budgets_nonneg_iff:
  assumes "state_ok s"
  shows "state_budgets_nonneg s \<longleftrightarrow> (\<forall>k d. month_of s k = Some d \<longrightarrow> js_ge (maxBudget d) (Fin 0))"
proof -
  let ?snap = "snapshot (heap s) (store s)"
  have "map fst ?snap = map fst (monthsObjs (heap s) (months (store s)))"
    by (simp add: snapshot_def case_prod_unfold comp_def)
  with assms have "distinct (map fst ?snap)"
    by (simp add: state_ok_def store_ok_def)
  then have mem: "month_of s k = Some d \<longleftrightarrow> (k, d) \<in> set ?snap" for k d
    by (simp add: month_of_def map_of_snapshot [symmetric])
  show ?thesis
    unfolding mem state_budgets_nonneg_def budgets_nonneg_def list_all_iff by auto
qed

text \<open>
  C9. In a state whose store is well-formed in the heap (its objects are allocated and no
  month object stands under two keys, as in every state the component reaches), each of
  \<open>addItem\<close>, \<open>removeItem\<close>, \<open>updateItem\<close>, \<open>updateBudget\<close> and \<open>resetMonth\<close> leaves
  the month entry of every key other than the active one as it was: the same ceiling and
  the same sequence of items.
\<close>

theorem other_months_unchanged:
  "state_ok s \<longrightarrow> k' \<noteq> activeMonth s \<longrightarrow>
     month_of (snd (addItem uuid now s)) k' = month_of s k' \<and>
     month_of (snd (removeItem c i s)) k' = month_of s k' \<and>
     month_of (snd (updateItem i f s)) k' = month_of s k' \<and>
     month_of (snd (updateBudget val s)) k' = month_of s k' \<and>
     month_of (snd (resetMonth c s)) k' = month_of s k'"
proof (intro impI conjI)
  assume ok: "state_ok s" and k: "k' \<noteq> activeMonth s"
  show "month_of (snd (addItem uuid now s)) k' = month_of s k'"
    using k by (simp add: addItem_month_of [OF ok])
  show "month_of (snd (removeItem c i s)) k' = month_of s k'"
    using k by (simp add: removeItem_def copying_month_of [OF ok])
  show "month_of (snd (updateItem i f s)) k' = month_of s k'"
    using k by (simp add: updateItem_def copying_month_of [OF ok])
  show "month_of (snd (updateBudget val s)) k' = month_of s k'"
    using k by (simp add: updateBudget_month_of [OF ok])
  show "month_of (snd (resetMonth c s)) k' = month_of s k'"
    using k by (simp add: resetMonth_month_of [OF ok])
qed

theorem other_months_unchanged_witness:
  "state_ok state0 \<and> ''2024-02'' \<noteq> activeMonth state0 \<and>
   month_of state0 ''2024-02'' =
     Some \<lparr>maxBudget = Fin 50,
       items = [\<lparr>item_id = ''b'', name = ''gym'', price = Fin 20, createdAt = ''t1''\<rparr>]\<rparr> \<and>
   month_of (snd (addItem ''u'' ''now'' state0)) ''2024-02'' = month_of state0 ''2024-02'' \<and>
   month_of (snd (removeItem True ''a'' state0)) ''2024-02'' = month_of state0 ''2024-02'' \<and>
   month_of (snd (updateItem ''a'' \<lparr>f_name = Some ''loan'', f_price = None\<rparr> state0)) ''2024-02'' =
     month_of state0 ''2024-02'' \<and>
   month_of (snd (updateBudget ''500'' state0)) ''2024-02'' = month_of state0 ''2024-02'' \<and>
   month_of (snd (resetMonth True state0)) ''2024-02'' = month_of state0 ''2024-02''"
proof -
  have k: "''2024-02'' \<noteq> activeMonth state0" by (simp add: state0_def)
  have m: "month_of state0 ''2024-02'' =
     Some \<lparr>maxBudget = Fin 50,
       items = [\<lparr>item_id = ''b'', name = ''gym'', price = Fin 20, createdAt = ''t1''\<rparr>]\<rparr>"
    by (simp add: state0_def heap0_def month_of_def month_data_def get_month_def)
  from other_months_unchanged [where s = state0 and k' = "''2024-02''" and uuid = "''u''"
      and now = "''now''" and c = True and i = "''a''"
      and f = "\<lparr>f_name = Some ''loan'', f_price = None\<rparr>" and val = "''500''"]
    state0_ok k m
  show ?thesis by simp
qed

section \<open>Loading and importing\<close>

lemmas json_eval =
  JSON_parse_def classify_def is_word_char_def cons_tok_def cons_tok_opt_def word_token_def
  json_number_def unescape_def hex4_def close_obj_def months_not_an_object_def months_x_def

lemma parse_months_not_an_object:
  "JSON_parse months_not_an_object = Some (JObj [(''months'', JStr ''not-an-object'')])"
  by (simp add: json_eval)

lemma parse_months_x: "JSON_parse months_x = Some (JObj [(''months'', JStr ''x'')])"
  by (simp add: json_eval)

lemma stringify_months_x:
  "stringify 0 0 (JObj [(''months'', JStr ''x'')]) =
     [CHR ''{'', CHR 0x22, CHR ''m'', CHR ''o'', CHR ''n'', CHR ''t'', CHR ''h'', CHR ''s'', CHR 0x22,
      CHR '':'', CHR 0x22, CHR ''x'', CHR 0x22, CHR ''}'']"
  by (simp add: newline_def quote_def quote_char_def)

lemma parse_saved_months_x:
  "JSON_parse (stringify 0 0 (JObj [(''months'', JStr ''x'')])) = Some (JObj [(''months'', JStr ''x'')])"
  unfolding stringify_months_x by (simp add: json_eval)

lemma loadData_cases:
  "loadData ls =
     (case ls STORAGE_KEY of
        None \<Rightarrow> empty_store
      | Some raw \<Rightarrow>
          (case JSON_parse raw of
             None \<Rightarrow> empty_store
           | Some parsed \<Rightarrow>
               if is_object parsed \<and> (\<exists>m. get_months parsed = Some m \<and> is_object m)
               then parsed else empty_store))"
proof -
  have e: "JSON_parse [] = None" by (simp add: JSON_parse_def)
  have o: "truthy v \<and> typeof_object v \<longleftrightarrow> is_object v" for v
    by (cases v) auto
  have "truthy_opt p \<and> typeof_object_opt p \<longleftrightarrow> (\<exists>m. p = Some m \<and> is_object m)" for p
    by (cases p) (auto simp add: truthy_opt_def typeof_object_opt_def o)
  with o e show ?thesis
    by (auto simp add: loadData_def split: option.splits)
qed

text \<open>
  \<open>loadData\<close> returns the empty store \<open>{months: {}}\<close> when the storage has no value
  under the key, when the text does not parse, when it parses to something that is not an
  object, and when the parsed value has no \<open>months\<close> property that passes
  \<open>typeof ... === "object"\<close>; so it does for the text \<open>{"months": "not-an-object"}\<close>.
  The parse error is caught: for every storage the result is a value, the empty store
  or the parsed document.
\<close>

lemma loadData_falls_back_to_empty:
  "(ls STORAGE_KEY = None \<longrightarrow> loadData ls = empty_store) \<and>
   (ls STORAGE_KEY = Some raw \<and> JSON_parse raw = None \<longrightarrow> loadData ls = empty_store) \<and>
   (ls STORAGE_KEY = Some raw \<and> JSON_parse raw = Some parsed \<and> (\<forall>kvs. parsed \<noteq> JObj kvs)
      \<longrightarrow> loadData ls = empty_store) \<and>
   (ls STORAGE_KEY = Some raw \<and> JSON_parse raw = Some parsed \<and>
      \<not> (\<exists>m. get_months parsed = Some m \<and> is_object m) \<longrightarrow> loadData ls = empty_store) \<and>
   (loadData ls = empty_store \<or>
      (\<exists>text. ls STORAGE_KEY = Some text \<and> JSON_parse text = Some (loadData ls))) \<and>
   loadData (Map.empty(STORAGE_KEY \<mapsto> months_not_an_object)) = empty_store"
proof (intro conjI impI)
  show "loadData ls = empty_store" if "ls STORAGE_KEY = None"
    using that by (simp add: loadData_cases)
  show "loadData ls = empty_store" if "ls STORAGE_KEY = Some raw \<and> JSON_parse raw = None"
    using that by (simp add: loadData_cases)
  show "loadData ls = empty_store"
    if "ls STORAGE_KEY = Some raw \<and> JSON_parse raw = Some parsed \<and> (\<forall>kvs. parsed \<noteq> JObj kvs)"
  proof -
    from that have "get_months parsed = None" by (cases parsed) (simp_all add: get_months_def)
    with that show ?thesis by (simp add: loadData_cases)
  qed
  show "loadData ls = empty_store"
    if "ls STORAGE_KEY = Some raw \<and> JSON_parse raw = Some parsed \<and>
      \<not> (\<exists>m. get_months parsed = Some m \<and> is_object m)"
    using that by (auto simp add: loadData_cases)
  show "loadData ls = empty_store \<or>
      (\<exists>text. ls STORAGE_KEY = Some text \<and> JSON_parse text = Some (loadData ls))"
    by (auto simp add: loadData_cases split: option.splits)
  show "loadData (Map.empty(STORAGE_KEY \<mapsto> months_not_an_object)) = empty_store"
    by (simp add: loadData_cases parse_months_not_an_object get_months_def)
qed

lemma parse_months_array: "JSON_parse months_array = Some (JObj [(''months'', JArr [])])"
  by (simp add: json_eval months_array_def)

text \<open>
  C7 (as the code behaves). The check of \<open>months\<close> is \<open>typeof parsed.months !== "object"\<close>,
  and \<open>typeof\<close> of an array is \<open>"object"\<close>: the stored text \<open>{"months": []}\<close>, whose
  \<open>months\<close> is no mapping of month keys, passes both checks and is returned as the store
  instead of the empty store.
\<close>

theorem loadData_returns_months_array:
  "JSON_parse months_array = Some (JObj [(''months'', JArr [])]) \<and>
   loadData (Map.empty(STORAGE_KEY \<mapsto> months_array)) = JObj [(''months'', JArr [])] \<and>
   loadData (Map.empty(STORAGE_KEY \<mapsto> months_array)) \<noteq> empty_store"
  by (simp add: loadData_cases parse_months_array get_months_def empty_store_def)

text \<open>
  The array passes each of the four tests of \<open>loadData\<close>, and the value returned has an
  array where the months are expected.
\<close>

theorem loadData_returns_months_array_witness:
  "truthy (JObj [(''months'', JArr [])]) \<and>
   typeof_object (JObj [(''months'', JArr [])]) \<and>
   truthy_opt (get_months (JObj [(''months'', JArr [])])) \<and>
   typeof_object_opt (get_months (JObj [(''months'', JArr [])])) \<and>
   get_months (loadData (Map.empty(STORAGE_KEY \<mapsto> months_array))) = Some (JArr [])"
  using loadData_returns_months_array
  by (simp add: get_months_def truthy_opt_def typeof_object_opt_def)

text \<open>
  C8. \<open>importAll\<close> accepts every parsed object whose \<open>months\<close> is truthy, whatever its
  type, and makes it the store: the document \<open>{"months": "x"}\<close> is imported as it is.
  \<open>loadData\<close> refuses the same text, and the text that \<open>saveData\<close> writes for the imported
  store, and returns the empty store. Every text that \<open>importAll\<close> refuses is refused by
  \<open>loadData\<close> as well, so the check on import is strictly the weaker one.
\<close>

theorem importAll_weaker_than_loadData:
  "(JSON_parse text = Some parsed \<and> is_object parsed \<and> truthy_opt (get_months parsed)
      \<longrightarrow> importAll (Some text) = Imported parsed) \<and>
   (importAll (Some text) = ImportFailed \<longrightarrow> loadData (ls(STORAGE_KEY \<mapsto> text)) = empty_store) \<and>
   importAll (Some months_x) = Imported (JObj [(''months'', JStr ''x'')]) \<and>
   loadData (ls(STORAGE_KEY \<mapsto> months_x)) = empty_store \<and>
   loadData (saveData (JObj [(''months'', JStr ''x'')]) ls) = empty_store"
proof (intro conjI impI)
  have o: "truthy v \<and> typeof_object v \<longleftrightarrow> is_object v" for v
    by (cases v) auto
  show "importAll (Some text) = Imported parsed"
    if "JSON_parse text = Some parsed \<and> is_object parsed \<and> truthy_opt (get_months parsed)"
    using that o [of parsed] by (auto simp add: importAll_def)
  show "loadData (ls(STORAGE_KEY \<mapsto> text)) = empty_store" if "importAll (Some text) = ImportFailed"
  proof (cases "JSON_parse text")
    case None
    then show ?thesis by (simp add: loadData_cases)
  next
    case (Some parsed)
    with that have "\<not> is_object parsed \<or> \<not> truthy_opt (get_months parsed)"
      using o [of parsed] by (auto simp add: importAll_def split: if_splits)
    moreover have "truthy_opt (get_months parsed)" if "get_months parsed = Some m" "is_object m" for m
      using that by (cases m) (simp_all add: truthy_opt_def)
    ultimately show ?thesis using Some by (auto simp add: loadData_cases)
  qed
  show "importAll (Some months_x) = Imported (JObj [(''months'', JStr ''x'')])"
    by (simp add: importAll_def parse_months_x get_months_def truthy_opt_def)
  show "loadData (ls(STORAGE_KEY \<mapsto> months_x)) = empty_store"
    by (simp add: loadData_cases parse_months_x get_months_def)
  show "loadData (saveData (JObj [(''months'', JStr ''x'')]) ls) = empty_store"
    by (simp add: loadData_cases saveData_def parse_saved_months_x get_months_def
        del: stringify.simps)
qed

theorem importAll_weaker_than_loadData_witness:
  "JSON_parse months_x = Some (JObj [(''months'', JStr ''x'')]) \<and>
   is_object (JObj [(''months'', JStr ''x'')]) \<and>
   truthy_opt (get_months (JObj [(''months'', JStr ''x'')])) \<and>
   importAll (Some months_x) = Imported (JObj [(''months'', JStr ''x'')]) \<and>
   importAll (Some ''[1,]'') = ImportFailed \<and>
   loadData (Map.empty(STORAGE_KEY \<mapsto> ''[1,]'')) = empty_store"
proof -
  have f: "importAll (Some ''[1,]'') = ImportFailed"
    by (simp add: importAll_def json_eval strDecimalLiteral_def is_digit_def dec_nat_def digit_val_def)
  from importAll_weaker_than_loadData
    [of months_x "JObj [(''months'', JStr ''x'')]" Map.empty]
    importAll_weaker_than_loadData [of "''[1,]''" JNull Map.empty] f
  show ?thesis
    by (simp add: parse_months_x get_months_def truthy_opt_def)
qed

section \<open>Printing and reading numbers\<close>

lemma of_char_digit_char: "d < 10 \<Longrightarrow> of_char (digit_char d) = 48 + d"
  by (simp add: digit_char_def)

lemma digit_char_props:
  "d < 10 \<Longrightarrow> is_digit (digit_char d)" "d < 10 \<Longrightarrow> digit_val (digit_char d) = d"
  "d < 10 \<Longrightarrow> is_word_char (digit_char d)"
  "0 < d \<Longrightarrow> d < 10 \<Longrightarrow> digit_char d \<noteq> CHR ''0''"
  using of_char_digit_char [of d]
  by (auto simp add: is_digit_def digit_val_def is_word_char_def
      dest: arg_cong [where f = "of_char :: char \<Rightarrow> nat"])

lemma dec_nat_snoc: "dec_nat (ds @ [c]) = 10 * dec_nat ds + digit_val c"
  by (simp add: dec_nat_def)

lemma dec_nat_foldl:
  "foldl (\<lambda>a c. 10 * a + digit_val c) a ds = a * 10 ^ length ds + dec_nat ds"
  unfolding dec_nat_def
proof (induction ds arbitrary: a)
  case Nil
  then show ?case by simp
next
  case (Cons c ds)
  let ?F = "\<lambda>a c. 10 * a + digit_val c"
  have "foldl ?F (10 * a + digit_val c) ds = (10 * a + digit_val c) * 10 ^ length ds + foldl ?F 0 ds"
    by (rule Cons.IH)
  moreover have "foldl ?F (digit_val c) ds = digit_val c * 10 ^ length ds + foldl ?F 0 ds"
    by (rule Cons.IH)
  ultimately show ?case by (simp add: algebra_simps)
qed

lemma dec_nat_Cons: "dec_nat (c # ds) = digit_val c * 10 ^ length ds + dec_nat ds"
  using dec_nat_foldl [of "digit_val c" ds] by (simp add: dec_nat_def)

declare digits_of.simps [simp del]

lemma digits_of_digits: "list_all is_digit (digits_of n)"
  by (induction n rule: digits_of.induct) (subst digits_of.simps, simp add: digit_char_props)

lemma digits_of_word: "list_all is_word_char (digits_of n)"
  by (induction n rule: digits_of.induct) (subst digits_of.simps, simp add: digit_char_props)

lemma digits_of_nonempty: "digits_of n \<noteq> []"
  by (subst digits_of.simps) simp

lemma dec_nat_digits_of: "dec_nat (digits_of n) = n"
proof (induction n rule: digits_of.induct)
  case (1 n)
  show ?case
  proof (cases "n < 10")
    case True
    then show ?thesis
      by (subst digits_of.simps) (simp add: dec_nat_def digit_char_props)
  next
    case False
    with 1 show ?thesis
      by (subst digits_of.simps) (simp add: dec_nat_snoc digit_char_props)
  qed
qed

lemma digits_of_hd: "0 < n \<Longrightarrow> hd (digits_of n) \<noteq> CHR ''0''"
proof (induction n rule: digits_of.induct)
  case (1 n)
  show ?case
  proof (cases "n < 10")
    case True
    with 1 show ?thesis
      by (subst digits_of.simps) (simp add: digit_char_props)
  next
    case False
    with 1 show ?thesis
      by (subst digits_of.simps) (simp add: digits_of_nonempty)
  qed
qed

lemma digits_of_leading: "\<not> (1 < length (digits_of n) \<and> hd (digits_of n) = CHR ''0'')"
proof (cases "n = 0")
  case True
  then show ?thesis by (subst digits_of.simps) simp
next
  case False
  then show ?thesis using digits_of_hd [of n] by simp
qed

lemma frac_digits_ok:
  "0 \<le> f \<Longrightarrow> f < 1 \<Longrightarrow> \<exists>z::int. f * 10 ^ n = of_int z \<Longrightarrow>
   list_all is_digit (frac_digits n f) \<and> list_all is_word_char (frac_digits n f) \<and>
   of_nat (dec_nat (frac_digits n f)) = f * 10 ^ length (frac_digits n f)"
proof (induction n arbitrary: f)
  case 0
  then obtain z :: int where z: "f = of_int z" by auto
  with 0 have "z = 0" by simp
  with z show ?case by (simp add: dec_nat_def)
next
  case (Suc n)
  show ?case
  proof (cases "f = 0")
    case True
    then show ?thesis by (simp add: dec_nat_def)
  next
    case False
    define d where "d = \<lfloor>10 * f\<rfloor>"
    define f' where "f' = 10 * f - of_int d"
    have d0: "0 \<le> d" using Suc.prems(1) by (simp add: d_def)
    have "10 * f < 10" using Suc.prems(2) by simp
    then have d9: "d < 10" unfolding d_def by (simp add: floor_less_iff)
    have f'0: "0 \<le> f'" unfolding f'_def d_def by simp
    have f'1: "f' < 1" unfolding f'_def d_def by linarith
    from Suc.prems(3) obtain z :: int where z: "f * 10 ^ Suc n = of_int z" by auto
    have "f' * 10 ^ n = of_int (z - d * 10 ^ n)"
      using z by (simp add: f'_def algebra_simps)
    then have "\<exists>z::int. f' * 10 ^ n = of_int z" by blast
    from Suc.IH [OF f'0 f'1 this]
    have ih: "list_all is_digit (frac_digits n f')" "list_all is_word_char (frac_digits n f')"
      "of_nat (dec_nat (frac_digits n f')) = f' * 10 ^ length (frac_digits n f')"
      by simp_all
    have nd: "nat d < 10" using d0 d9 by simp
    have eq: "frac_digits (Suc n) f = digit_char (nat d) # frac_digits n f'"
      using False by (simp add: d_def f'_def)
    have "(of_nat (nat d) :: rat) = of_int d" using d0 by simp
    then have "of_nat (dec_nat (frac_digits (Suc n) f)) =
        (of_int d + f') * 10 ^ length (frac_digits n f')"
      by (simp add: eq dec_nat_Cons digit_char_props nd ih(3) algebra_simps del: frac_digits.simps)
    also have "of_int d + f' = 10 * f" by (simp add: f'_def)
    finally show ?thesis
      by (simp add: eq ih digit_char_props nd del: frac_digits.simps)
  qed
qed

lemma not_digit_point: "\<not> is_digit CHR ''.''" "\<not> is_digit CHR ''-''"
  by (simp_all add: is_digit_def)

lemma digits_then:
  "list_all is_digit ds \<Longrightarrow> takeWhile is_digit (ds @ CHR ''.'' # fs) = ds"
  "list_all is_digit ds \<Longrightarrow> dropWhile is_digit (ds @ CHR ''.'' # fs) = CHR ''.'' # fs"
  "list_all is_digit ds \<Longrightarrow> takeWhile is_digit ds = ds"
  "list_all is_digit ds \<Longrightarrow> dropWhile is_digit ds = []"
  by (simp_all add: list_all_iff takeWhile_append2 dropWhile_append2 not_digit_point)

lemma strDecimalLiteral_int:
  "list_all is_digit ds \<Longrightarrow> ds \<noteq> [] \<Longrightarrow> strDecimalLiteral ds = Some (of_nat (dec_nat ds))"
  by (simp add: strDecimalLiteral_def digits_then)

lemma strDecimalLiteral_frac:
  "list_all is_digit ds \<Longrightarrow> ds \<noteq> [] \<Longrightarrow> list_all is_digit fs \<Longrightarrow>
   strDecimalLiteral (ds @ CHR ''.'' # fs) =
     Some (of_nat (dec_nat ds) + of_nat (dec_nat fs) / 10 ^ length fs)"
  by (simp add: strDecimalLiteral_def digits_then exponent_part_def pow10_def)

text \<open>The text of a non-negative decimal fraction.\<close>

lemma unsigned_text:
  assumes a: "0 \<le> a" and dec: "\<exists>z::int. a * 10 ^ m = of_int z"
  defines "u \<equiv> digits_of (nat \<lfloor>a\<rfloor>) @
    (if a - of_int \<lfloor>a\<rfloor> = 0 then [] else CHR ''.'' # frac_digits m (a - of_int \<lfloor>a\<rfloor>))"
  shows "strDecimalLiteral u = Some a"
    and "takeWhile is_digit u = digits_of (nat \<lfloor>a\<rfloor>)"
    and "\<not> (case dropWhile is_digit u of c # t \<Rightarrow> c = CHR ''.'' \<and> takeWhile is_digit t = [] | [] \<Rightarrow> False)"
    and "list_all is_word_char u"
    and "is_digit (hd u)" and "u \<noteq> []"
proof -
  let ?n = "nat \<lfloor>a\<rfloor>"
  let ?f = "a - of_int \<lfloor>a\<rfloor>"
  let ?D = "digits_of ?n"
  let ?F = "frac_digits m ?f"
  have n: "(of_nat ?n :: rat) = of_int \<lfloor>a\<rfloor>" using a by simp
  have f0: "0 \<le> ?f" by simp
  have f1: "?f < 1" by linarith
  from dec obtain z :: int where "a * 10 ^ m = of_int z" by auto
  then have "?f * 10 ^ m = of_int (z - \<lfloor>a\<rfloor> * 10 ^ m)" by (simp add: algebra_simps)
  then have "\<exists>z::int. ?f * 10 ^ m = of_int z" by blast
  from frac_digits_ok [OF f0 f1 this]
  have F: "list_all is_digit ?F" "list_all is_word_char ?F"
    "of_nat (dec_nat ?F) = ?f * 10 ^ length ?F"
    by simp_all
  have D: "list_all is_digit ?D" "?D \<noteq> []" "dec_nat ?D = ?n" "list_all is_word_char ?D"
    by (simp_all add: digits_of_digits digits_of_nonempty dec_nat_digits_of digits_of_word)
  have Fne: "?F \<noteq> []" if "?f \<noteq> 0"
  proof (cases m)
    case 0
    with dec obtain z :: int where "a = of_int z" by auto
    then have "?f = 0" by simp
    with that show ?thesis by simp
  next
    case (Suc k)
    with that show ?thesis by simp
  qed
  show "u \<noteq> []" using D(2) by (simp add: u_def)
  show "is_digit (hd u)" using D(1,2) by (cases ?D) (simp_all add: u_def)
  show "list_all is_word_char u" using D(4) F(2) by (simp add: u_def is_word_char_def)
  show "takeWhile is_digit u = ?D" using D(1) by (simp add: u_def digits_then)
  show "\<not> (case dropWhile is_digit u of c # t \<Rightarrow> c = CHR ''.'' \<and> takeWhile is_digit t = [] | [] \<Rightarrow> False)"
    using D(1) F(1) Fne by (simp add: u_def digits_then)
  show "strDecimalLiteral u = Some a"
  proof (cases "?f = 0")
    case True
    then have "a = of_int \<lfloor>a\<rfloor>" by simp
    with True D n show ?thesis by (simp add: u_def strDecimalLiteral_int)
  next
    case False
    have "(of_nat (dec_nat ?F) :: rat) / 10 ^ length ?F = ?f" by (simp add: F(3))
    with False D F(1) n show ?thesis by (simp add: u_def strDecimalLiteral_frac)
  qed
qed

lemma pow2_pos: "0 < pow2 p"
  by (simp add: pow2_def)

lemma pow2_scaled: "- int m \<le> p \<Longrightarrow> \<exists>z::int. pow2 p * 2 ^ m = of_int z"
proof (cases "0 \<le> p")
  case True
  then have "pow2 p * 2 ^ m = of_int (2 ^ nat p * 2 ^ m)" by (simp add: pow2_def)
  then show ?thesis ..
next
  case False
  assume "- int m \<le> p"
  with False have k: "nat (- p) \<le> m" by simp
  have "pow2 p * 2 ^ m = (2 :: rat) ^ m / 2 ^ nat (- p)" using False by (simp add: pow2_def)
  also have "\<dots> = 2 ^ (m - nat (- p))" using k by (simp add: power_diff)
  also have "\<dots> = of_int (2 ^ (m - nat (- p)))" by simp
  finally show ?thesis ..
qed

text \<open>A binary64 value is a decimal fraction with at most 1074 digits after the point.\<close>

lemma is_doubleD: "is_double q \<Longrightarrow> \<exists>z::int. \<bar>q\<bar> * 10 ^ min_exponent = of_int z"
proof (cases "q = 0")
  case True
  then show ?thesis by simp
next
  case False
  assume "is_double q"
  define p where "p = max (ilog2 \<bar>q\<bar> - 52) (- int min_exponent)"
  define n where "n = round_even (\<bar>q\<bar> / pow2 p)"
  from \<open>is_double q\<close> False have "(if q < 0 then - (of_int n * pow2 p) else of_int n * pow2 p) = q"
    by (simp add: is_double_def round64_def Let_def p_def n_def split: if_splits)
  then have "\<bar>q\<bar> = \<bar>of_int n * pow2 p\<bar>" by (auto split: if_splits)
  also have "\<dots> = of_int \<bar>n\<bar> * pow2 p"
    using pow2_pos [of p] by (simp add: abs_mult)
  finally have q: "\<bar>q\<bar> = of_int \<bar>n\<bar> * pow2 p" .
  have "- int min_exponent \<le> p" by (simp add: p_def)
  from pow2_scaled [OF this] obtain z :: int where z: "pow2 p * 2 ^ min_exponent = of_int z" ..
  have "(10 :: rat) ^ min_exponent = 2 ^ min_exponent * 5 ^ min_exponent"
    by (simp flip: power_mult_distrib)
  then have "\<bar>q\<bar> * 10 ^ min_exponent = of_int \<bar>n\<bar> * (pow2 p * 2 ^ min_exponent) * 5 ^ min_exponent"
    by (simp add: q)
  also have "\<dots> = of_int (\<bar>n\<bar> * z * 5 ^ min_exponent)" by (simp add: z)
  finally show ?thesis ..
qed

lemma json_number_num_text:
  assumes "is_double q"
  shows "json_number (num_text q) = Some q"
    and "list_all is_word_char (num_text q)"
    and "num_text q \<noteq> []"
    and "is_digit (hd (num_text q)) \<or> hd (num_text q) = CHR ''-''"
proof -
  define u where "u = digits_of (nat \<lfloor>\<bar>q\<bar>\<rfloor>) @
    (if \<bar>q\<bar> - of_int \<lfloor>\<bar>q\<bar>\<rfloor> = 0 then []
     else CHR ''.'' # frac_digits min_exponent (\<bar>q\<bar> - of_int \<lfloor>\<bar>q\<bar>\<rfloor>))"
  have nt: "num_text q = (if q < 0 then ''-'' else []) @ u"
    by (simp add: num_text_def u_def Let_def)
  have a: "0 \<le> \<bar>q\<bar>" by simp
  note u = unsigned_text [OF a is_doubleD [OF assms], folded u_def]
  show "num_text q \<noteq> []" using u(6) by (simp add: nt)
  show "list_all is_word_char (num_text q)" using u(4) by (simp add: nt is_word_char_def)
  show "is_digit (hd (num_text q)) \<or> hd (num_text q) = CHR ''-''"
    using u(5,6) by (simp add: nt)
  show "json_number (num_text q) = Some q"
  proof (cases "q < 0")
    case True
    then have w: "num_text q = CHR ''-'' # u" by (simp add: nt)
    from True u(1,2,3) digits_of_nonempty [of "nat \<lfloor>\<bar>q\<bar>\<rfloor>"] digits_of_leading [of "nat \<lfloor>\<bar>q\<bar>\<rfloor>"]
    show ?thesis
      by (simp add: w json_number_def Let_def)
  next
    case False
    then have w: "num_text q = u" by (simp add: nt)
    from u(5,6) have "hd u \<noteq> CHR ''-''" by (auto simp add: not_digit_point)
    then have strip: "(case u of c # t \<Rightarrow> if c = CHR ''-'' then t else u | [] \<Rightarrow> u) = u"
      using u(6) by (cases u) simp_all
    from False u(1,2,3) digits_of_nonempty [of "nat \<lfloor>\<bar>q\<bar>\<rfloor>"] digits_of_leading [of "nat \<lfloor>\<bar>q\<bar>\<rfloor>"]
    show ?thesis
      by (simp add: w json_number_def Let_def strip)
  qed
qed

lemma word_token_num_text: "is_double q \<Longrightarrow> word_token (num_text q) = Some (TNum q)"
proof -
  assume d: "is_double q"
  from json_number_num_text(3,4) [OF d]
  have "num_text q \<noteq> ''true''" "num_text q \<noteq> ''false''" "num_text q \<noteq> ''null''"
    by (auto simp add: is_digit_def)
  with json_number_num_text(1) [OF d] show ?thesis by (simp add: word_token_def)
qed

section \<open>Scanning a printed value\<close>

lemma prepend_simps:
  "cons_tok t r = prepend [t] r" "prepend a (prepend b r) = prepend (a @ b) r" "prepend [] r = r"
  "prepend a None = None" "prepend a (Some ts) = Some (a @ ts)"
  by (cases r; simp add: prepend_def cons_tok_def)+

lemma classify_word: "is_word_char c \<Longrightarrow> classify c = StartWord"
  by (auto simp add: classify_def is_word_char_def Let_def)

lemma classify_not_word: "\<not> is_word_char c \<Longrightarrow> classify c \<noteq> StartWord"
  by (simp add: classify_def Let_def)

lemma tokenize_Word_run:
  "list_all is_word_char w \<Longrightarrow> tokenize (Word acc) (w @ rest) = tokenize (Word (rev w @ acc)) rest"
  by (induction w arbitrary: acc) (simp_all add: classify_word)

lemma tokenize_Word_end:
  "delimited rest \<Longrightarrow> tokenize (Word acc) rest = cons_tok_opt (word_token (rev acc)) (tokenize Scan rest)"
proof (cases rest)
  case Nil
  then show ?thesis by simp
next
  case (Cons c cs)
  assume "delimited rest"
  with Cons have "classify c \<noteq> StartWord" by (simp add: delimited_def classify_not_word)
  then show ?thesis
    by (cases "classify c"; cases "word_token (rev acc)")
      (simp_all add: Cons cons_tok_opt_def cons_tok_def)
qed

lemma tokenize_word:
  assumes "w \<noteq> []" "list_all is_word_char w" "delimited rest" "word_token w = Some t"
  shows "tokenize Scan (w @ rest) = prepend [t] (tokenize Scan rest)"
proof -
  from assms(1) obtain c cs where w: "w = c # cs" by (cases w) auto
  with assms(2) have c: "classify c = StartWord" and cs: "list_all is_word_char cs"
    by (simp_all add: classify_word)
  have "tokenize Scan (w @ rest) = tokenize (Word [c]) (cs @ rest)" by (simp add: w c)
  also have "\<dots> = tokenize (Word (rev cs @ [c])) rest" by (rule tokenize_Word_run [OF cs])
  also have "\<dots> = cons_tok_opt (word_token (rev (rev cs @ [c]))) (tokenize Scan rest)"
    by (rule tokenize_Word_end [OF assms(3)])
  finally show ?thesis using assms(4) by (simp add: w cons_tok_opt_def prepend_simps)
qed

lemma tokenize_spaces: "tokenize Scan (replicate k CHR '' '' @ rest) = tokenize Scan rest"
  by (induction k) (simp_all add: classify_def)

lemma tokenize_newline: "tokenize Scan (newline g i @ rest) = tokenize Scan rest"
  by (simp add: newline_def classify_def tokenize_spaces)

lemma radix_digit_hex_char: "d < 16 \<Longrightarrow> radix_digit (hex_char d) = Some d"
  by (auto simp add: radix_digit_def hex_char_def Let_def)

lemma hex4_low:
  assumes "n < 32"
  shows "hex4 [CHR ''0'', CHR ''0'', hex_char (n div 16), hex_char (n mod 16)] = Some (char_of n)"
proof -
  have d: "n div 16 < 16" "n mod 16 < 16" using assms by simp_all
  have z: "radix_digit CHR ''0'' = Some 0" by (simp add: radix_digit_def)
  have "16 * (n div 16) + n mod 16 = n" by simp
  with assms show ?thesis
    by (simp add: hex4_def z radix_digit_hex_char [OF d(1)] radix_digit_hex_char [OF d(2)])
qed

lemma char_eqI: "(of_char a :: nat) = of_char b \<Longrightarrow> a = b"
  by simp

lemma tokenize_escaped:
  "unescape e = Some c \<Longrightarrow> e \<noteq> CHR ''u'' \<Longrightarrow>
   tokenize (Str acc) (CHR 0x5C # e # rest) = tokenize (Str (c # acc)) rest"
  by simp

lemma tokenize_quote_char: "tokenize (Str acc) (quote_char c @ rest) = tokenize (Str (c # acc)) rest"
proof -
  define n where "n = (of_char c :: nat)"
  show ?thesis
  proof (cases "n = 34 \<or> n = 92 \<or> n = 8 \<or> n = 9 \<or> n = 10 \<or> n = 12 \<or> n = 13")
    case True
    have lit: "c = d" if "n = (of_char d :: nat)" for d
      using that unfolding n_def by (rule char_eqI)
    from True consider "c = CHR 0x22" | "c = CHR 0x5C" | "c = CHR 0x08" | "c = CHR 0x09"
      | "c = CHR 0x0A" | "c = CHR 0x0C" | "c = CHR 0x0D"
      using lit [of "CHR 0x22"] lit [of "CHR 0x5C"] lit [of "CHR 0x08"] lit [of "CHR 0x09"]
        lit [of "CHR 0x0A"] lit [of "CHR 0x0C"] lit [of "CHR 0x0D"]
      by auto
    then show ?thesis
      by cases (simp_all add: quote_char_def unescape_def)
  next
    case False
    show ?thesis
    proof (cases "n < 32")
      case True
      have q: "quote_char c =
        [CHR 0x5C, CHR ''u'', CHR ''0'', CHR ''0'', hex_char (n div 16), hex_char (n mod 16)]"
        using True False by (simp add: quote_char_def n_def [symmetric] Let_def)
      have "char_of n = c" by (simp add: n_def)
      with hex4_low [OF True] show ?thesis by (simp add: q)
    next
      case ge: False
      with False have q: "quote_char c = [c]"
        by (simp add: quote_char_def n_def [symmetric] Let_def)
      show ?thesis using ge False by (simp add: q n_def [symmetric])
    qed
  qed
qed

lemma tokenize_quoted:
  "tokenize (Str acc) (concat (map quote_char s) @ CHR 0x22 # rest) =
     prepend [TStr (rev acc @ s)] (tokenize Scan rest)"
proof (induction s arbitrary: acc)
  case Nil
  show ?case by (simp add: prepend_simps)
next
  case (Cons c s)
  have "tokenize (Str acc) (concat (map quote_char (c # s)) @ CHR 0x22 # rest) =
      tokenize (Str acc) (quote_char c @ (concat (map quote_char s) @ CHR 0x22 # rest))"
    by simp
  also have "\<dots> = tokenize (Str (c # acc)) (concat (map quote_char s) @ CHR 0x22 # rest)"
    by (rule tokenize_quote_char)
  also have "\<dots> = prepend [TStr (rev (c # acc) @ s)] (tokenize Scan rest)"
    by (rule Cons.IH)
  finally show ?case by simp
qed

lemma tokenize_quote: "tokenize Scan (quote s @ rest) = prepend [TStr s] (tokenize Scan rest)"
  using tokenize_quoted [of "[]" s rest] by (simp add: quote_def classify_def)

declare tokenize.simps [simp del]

lemma tokenize_punct:
  "tokenize Scan (CHR ''['' # rest) = prepend [LBrack] (tokenize Scan rest)"
  "tokenize Scan (CHR '']'' # rest) = prepend [RBrack] (tokenize Scan rest)"
  "tokenize Scan (CHR ''{'' # rest) = prepend [LBrace] (tokenize Scan rest)"
  "tokenize Scan (CHR ''}'' # rest) = prepend [RBrace] (tokenize Scan rest)"
  "tokenize Scan (CHR '','' # rest) = prepend [Comma] (tokenize Scan rest)"
  "tokenize Scan (CHR '':'' # rest) = prepend [Colon] (tokenize Scan rest)"
  "tokenize Scan (CHR '' '' # rest) = tokenize Scan rest"
  by (simp_all add: tokenize.simps classify_def prepend_simps)

lemma delimited_simps:
  "delimited (CHR '','' # rest)" "delimited (CHR '']'' # rest)" "delimited (CHR ''}'' # rest)"
  "delimited (CHR 0x0A # rest)" "delimited []"
  by (simp_all add: delimited_def is_word_char_def)

lemma delimited_newline:
  "delimited (newline g i @ CHR '']'' # rest)" "delimited (newline g i @ CHR ''}'' # rest)"
  by (simp_all add: newline_def delimited_simps)

lemma join_Cons: "join sep (x # xs) = x @ concat (map ((@) sep) xs)"
  by (induction xs arbitrary: x) simp_all

lemma join_map: "join sep (map f (x # xs)) = f x @ concat (map (\<lambda>y. sep @ f y) xs)"
  by (simp add: join_Cons comp_def del: join.simps)

lemma delimited_members:
  "delimited rest \<Longrightarrow> delimited (concat (map (\<lambda>y. CHR '','' # sep @ f y) xs) @ rest)"
  by (cases xs) (simp_all add: delimited_simps)

lemma tokenize_members:
  assumes each: "\<And>x rest. x \<in> set xs \<Longrightarrow> delimited rest \<Longrightarrow>
      tokenize Scan (f x @ rest) = prepend (t x) (tokenize Scan rest)"
    and rest: "delimited rest"
  shows "tokenize Scan (concat (map (\<lambda>y. CHR '','' # newline g i @ f y) xs) @ rest) =
         prepend (concat (map (\<lambda>y. Comma # t y) xs)) (tokenize Scan rest)"
  using each
proof (induction xs)
  case Nil
  show ?case by (simp add: prepend_simps)
next
  case (Cons x xs)
  let ?R = "concat (map (\<lambda>y. CHR '','' # newline g i @ f y) xs) @ rest"
  have d: "delimited ?R" using rest by (rule delimited_members)
  have "tokenize Scan (concat (map (\<lambda>y. CHR '','' # newline g i @ f y) (x # xs)) @ rest) =
      prepend [Comma] (tokenize Scan (f x @ ?R))"
    by (simp add: tokenize_punct tokenize_newline)
  also have "tokenize Scan (f x @ ?R) = prepend (t x) (tokenize Scan ?R)"
    by (rule Cons.prems) (simp_all add: d)
  also have "tokenize Scan ?R = prepend (concat (map (\<lambda>y. Comma # t y) xs)) (tokenize Scan rest)"
    by (rule Cons.IH) (simp add: Cons.prems)
  finally show ?case by (simp add: prepend_simps)
qed

lemma tokenize_list:
  assumes each: "\<And>x rest. x \<in> set xs \<Longrightarrow> delimited rest \<Longrightarrow>
      tokenize Scan (f x @ rest) = prepend (t x) (tokenize Scan rest)"
    and ne: "xs \<noteq> []" and rest: "delimited (newline g j @ rest)"
  shows "tokenize Scan (newline g i @ join (CHR '','' # newline g i) (map f xs) @ newline g j @ rest) =
         prepend (join [Comma] (map t xs)) (tokenize Scan rest)"
proof -
  from ne obtain x ys where xs: "xs = x # ys" by (cases xs) auto
  let ?R = "concat (map (\<lambda>y. CHR '','' # newline g i @ f y) ys) @ newline g j @ rest"
  have d: "delimited ?R" using rest by (rule delimited_members)
  have "tokenize Scan (newline g i @ join (CHR '','' # newline g i) (map f xs) @ newline g j @ rest) =
      tokenize Scan (f x @ ?R)"
    unfolding xs join_map by (simp add: tokenize_newline)
  also have "\<dots> = prepend (t x) (tokenize Scan ?R)"
    by (rule each) (simp_all add: xs d)
  also have "tokenize Scan ?R =
      prepend (concat (map (\<lambda>y. Comma # t y) ys)) (tokenize Scan (newline g j @ rest))"
    by (rule tokenize_members [OF each rest]) (simp add: xs)
  finally show ?thesis
    unfolding xs join_map by (simp add: prepend_simps tokenize_newline)
qed

lemma word_tokens:
  "word_token ''null'' = Some TNull" "word_token ''true'' = Some TTrue"
  "word_token ''false'' = Some TFalse"
  by (simp_all add: word_token_def)

lemma tokenize_stringify:
  "json_clean v \<Longrightarrow> delimited rest \<Longrightarrow>
   tokenize Scan (stringify g ind v @ rest) = prepend (toks v) (tokenize Scan rest)"
proof (induction g ind v arbitrary: rest rule: stringify.induct)
  case (1 g ind)
  show ?case
    using tokenize_word [of "''null''" rest TNull] 1
    by (simp add: word_tokens is_word_char_def)
next
  case (2 g ind b)
  show ?case
    using tokenize_word [of "''true''" rest TTrue] tokenize_word [of "''false''" rest TFalse] 2
    by (simp add: word_tokens is_word_char_def)
next
  case (3 g ind n)
  then obtain q where q: "n = Fin q" "is_double q"
    by (cases n) (simp_all add: json_num_def)
  from tokenize_word [OF json_number_num_text(3) [OF q(2)] json_number_num_text(2) [OF q(2)]
      3(2) word_token_num_text [OF q(2)]]
  show ?case by (simp add: q)
next
  case (4 g ind s)
  show ?case by (simp add: tokenize_quote)
next
  case (5 g ind vs)
  show ?case
  proof (cases "vs = []")
    case True
    then show ?thesis by (simp add: tokenize_punct prepend_simps)
  next
    case False
    have each: "tokenize Scan (stringify g (ind + g) x @ r) = prepend (toks x) (tokenize Scan r)"
      if "x \<in> set vs" "delimited r" for x r
      using 5(1) [OF False that(1) _ that(2)] 5(2) that(1) by (simp add: list_all_iff)
    have "tokenize Scan (newline g (ind + g) @
        join (CHR '','' # newline g (ind + g)) (map (stringify g (ind + g)) vs) @
        newline g ind @ CHR '']'' # rest) =
      prepend (join [Comma] (map toks vs)) (tokenize Scan (CHR '']'' # rest))"
      by (rule tokenize_list [OF each False delimited_newline(1)])
    with False show ?thesis
      by (simp add: tokenize_punct prepend_simps del: join.simps)
  qed
next
  case (6 g ind kvs)
  show ?case
  proof (cases "kvs = []")
    case True
    then show ?thesis by (simp add: tokenize_punct prepend_simps)
  next
    case False
    let ?f = "\<lambda>kv. quote (fst kv) @ '':'' @ (if g = 0 then [] else '' '') @
                         stringify g (ind + g) (snd kv)"
    let ?t = "\<lambda>kv. TStr (fst kv) # Colon # toks (snd kv)"
    have each: "tokenize Scan (?f kv @ r) = prepend (?t kv) (tokenize Scan r)"
      if "kv \<in> set kvs" "delimited r" for kv r
    proof -
      have "tokenize Scan (stringify g (ind + g) (snd kv) @ r) =
          prepend (toks (snd kv)) (tokenize Scan r)"
        using 6(1) [OF False that(1) _ that(2)] 6(2) that(1) by (simp add: list_all_iff)
      then show ?thesis
        by (cases "g = 0") (simp_all add: tokenize_quote tokenize_punct prepend_simps)
    qed
    have "tokenize Scan (newline g (ind + g) @
        join (CHR '','' # newline g (ind + g)) (map ?f kvs) @
        newline g ind @ CHR ''}'' # rest) =
      prepend (join [Comma] (map ?t kvs)) (tokenize Scan (CHR ''}'' # rest))"
      by (rule tokenize_list [OF each False delimited_newline(2)])
    with False show ?thesis
      by (simp add: tokenize_punct prepend_simps del: join.simps)
  qed
qed

section \<open>Parsing the tokens of a value\<close>

lemma update_fresh: "k \<notin> fst ` set al \<Longrightarrow> AList.update k v al = al @ [(k, v)]"
  by (induction al) auto

lemma foldl_update_distinct:
  "distinct (map fst (al @ kvs)) \<Longrightarrow>
   foldl (\<lambda>al kv. AList.update (fst kv) (snd kv) al) al kvs = al @ kvs"
proof (induction kvs arbitrary: al)
  case Nil
  show ?case by simp
next
  case (Cons kv kvs)
  from Cons.prems have "fst kv \<notin> fst ` set al" by auto
  then have u: "AList.update (fst kv) (snd kv) al = al @ [kv]" by (simp add: update_fresh)
  from Cons.prems have "distinct (map fst ((al @ [kv]) @ kvs))" by simp
  from Cons.IH [OF this] show ?case by (simp add: u)
qed

lemma close_obj_rev: "distinct (map fst kvs) \<Longrightarrow> close_obj (rev kvs) = JObj kvs"
  using foldl_update_distinct [of "[]" kvs] by (simp add: close_obj_def)

lemma parse_elements:
  assumes each: "\<And>y s st ts. y \<in> set ys \<Longrightarrow> s = PVal \<or> s = PArr0 \<Longrightarrow>
      parse_run s st (toks y @ ts) = continue y st ts"
  shows "parse_run PAfter (ArrF acc # st) (concat (map (\<lambda>y. Comma # toks y) ys) @ RBrack # ts) =
         continue (JArr (rev acc @ ys)) st ts"
  using each
proof (induction ys arbitrary: acc)
  case Nil
  show ?case by (simp add: continue_def)
next
  case (Cons y ys)
  let ?R = "concat (map (\<lambda>y. Comma # toks y) ys) @ RBrack # ts"
  have "parse_run PAfter (ArrF acc # st) (concat (map (\<lambda>y. Comma # toks y) (y # ys)) @ RBrack # ts) =
      parse_run PVal (ArrF acc # st) (toks y @ ?R)"
    by simp
  also have "\<dots> = continue y (ArrF acc # st) ?R"
    by (rule Cons.prems) simp_all
  also have "\<dots> = parse_run PAfter (ArrF (y # acc) # st) ?R"
    by (simp add: continue_def)
  also have "\<dots> = continue (JArr (rev (y # acc) @ ys)) st ts"
    by (rule Cons.IH) (simp add: Cons.prems)
  finally show ?case by simp
qed

lemma parse_member:
  assumes "s = PObj0 \<or> s = PKey"
    and "\<And>s st ts. s = PVal \<or> s = PArr0 \<Longrightarrow> parse_run s st (toks v @ ts) = continue v st ts"
  shows "parse_run s (ObjF acc # st) (TStr k # Colon # toks v @ ts) =
         parse_run PAfter (ObjF ((k, v) # acc) # st) ts"
proof -
  have "parse_run s (ObjF acc # st) (TStr k # Colon # toks v @ ts) =
      parse_run PVal (KeyF k # ObjF acc # st) (toks v @ ts)"
    using assms(1) by auto
  also have "\<dots> = continue v (KeyF k # ObjF acc # st) ts"
    by (rule assms(2)) simp
  finally show ?thesis by (simp add: continue_def)
qed

lemma parse_members:
  assumes each: "\<And>kv s st ts. kv \<in> set kvs \<Longrightarrow> s = PVal \<or> s = PArr0 \<Longrightarrow>
      parse_run s st (toks (snd kv) @ ts) = continue (snd kv) st ts"
  shows "parse_run PAfter (ObjF acc # st)
           (concat (map (\<lambda>kv. Comma # TStr (fst kv) # Colon # toks (snd kv)) kvs) @ RBrace # ts) =
         continue (close_obj (rev kvs @ acc)) st ts"
  using each
proof (induction kvs arbitrary: acc)
  case Nil
  show ?case by (simp add: continue_def)
next
  case (Cons kv kvs)
  let ?R = "concat (map (\<lambda>kv. Comma # TStr (fst kv) # Colon # toks (snd kv)) kvs) @ RBrace # ts"
  have "parse_run PAfter (ObjF acc # st)
      (concat (map (\<lambda>kv. Comma # TStr (fst kv) # Colon # toks (snd kv)) (kv # kvs)) @ RBrace # ts) =
      parse_run PKey (ObjF acc # st) (TStr (fst kv) # Colon # toks (snd kv) @ ?R)"
    by simp
  also have "\<dots> = parse_run PAfter (ObjF ((fst kv, snd kv) # acc) # st) ?R"
    by (rule parse_member) (simp_all add: Cons.prems)
  also have "\<dots> = continue (close_obj (rev kvs @ (fst kv, snd kv) # acc)) st ts"
    by (rule Cons.IH) (simp add: Cons.prems)
  finally show ?case by simp
qed

lemma parse_toks:
  "json_clean v \<Longrightarrow> s = PVal \<or> s = PArr0 \<Longrightarrow>
   parse_run s st (toks v @ ts) = continue v st ts"
proof (induction v arbitrary: s st ts rule: toks.induct)
  case 1
  then show ?case by (auto simp add: continue_def)
next
  case (2 b)
  then show ?case by (auto simp add: continue_def)
next
  case (3 n)
  then obtain q where "n = Fin q" "round64 q = Fin q"
    by (cases n) (simp_all add: json_num_def is_double_def)
  with 3 show ?case by (auto simp add: continue_def)
next
  case (4 str)
  then show ?case by (auto simp add: continue_def)
next
  case (5 vs)
  show ?case
  proof (cases vs)
    case Nil
    with 5(3) show ?thesis by (auto simp add: continue_def)
  next
    case (Cons x xs)
    have each: "parse_run s st (toks y @ ts) = continue y st ts"
      if "y \<in> set vs" "s = PVal \<or> s = PArr0" for y s st ts
      using 5(1) [OF that(1) _ that(2)] 5(2) that(1) by (simp add: list_all_iff)
    let ?R = "concat (map (\<lambda>y. Comma # toks y) xs) @ RBrack # ts"
    have "parse_run s st (toks (JArr vs) @ ts) = parse_run PArr0 (ArrF [] # st) (toks x @ ?R)"
      using 5(3) by (auto simp add: Cons join_Cons comp_def simp del: join.simps)
    also have "\<dots> = continue x (ArrF [] # st) ?R"
      by (rule each) (simp_all add: Cons)
    also have "\<dots> = parse_run PAfter (ArrF [x] # st) ?R"
      by (simp add: continue_def)
    also have "\<dots> = continue (JArr (rev [x] @ xs)) st ts"
      by (rule parse_elements) (simp_all add: each Cons)
    finally show ?thesis by (simp add: Cons)
  qed
next
  case (6 kvs)
  show ?case
  proof (cases kvs)
    case Nil
    with 6(3) show ?thesis by (auto simp add: continue_def close_obj_def)
  next
    case (Cons x xs)
    have each: "parse_run s st (toks (snd kv) @ ts) = continue (snd kv) st ts"
      if "kv \<in> set kvs" "s = PVal \<or> s = PArr0" for kv s st ts
      using 6(1) [OF that(1) _ that(2)] 6(2) that(1) by (simp add: list_all_iff)
    from 6(2) have d: "distinct (map fst kvs)" by simp
    let ?R = "concat (map (\<lambda>kv. Comma # TStr (fst kv) # Colon # toks (snd kv)) xs) @ RBrace # ts"
    have "parse_run s st (toks (JObj kvs) @ ts) =
        parse_run PObj0 (ObjF [] # st) (TStr (fst x) # Colon # toks (snd x) @ ?R)"
      using 6(3) by (auto simp add: Cons join_Cons comp_def simp del: join.simps)
    also have "\<dots> = parse_run PAfter (ObjF [(fst x, snd x)] # st) ?R"
      by (rule parse_member) (simp_all add: each Cons)
    also have "\<dots> = continue (close_obj (rev xs @ [(fst x, snd x)])) st ts"
      by (rule parse_members) (simp_all add: each Cons)
    also have "close_obj (rev xs @ [(fst x, snd x)]) = JObj kvs"
      using close_obj_rev [OF d] by (simp add: Cons)
    finally show ?thesis .
  qed
qed

text \<open>\<open>JSON.parse\<close> reads the text of a clean value back, with or without a gap.\<close>

lemma parse_stringify: "json_clean v \<Longrightarrow> JSON_parse (stringify g 0 v) = Some v"
proof -
  assume c: "json_clean v"
  have "tokenize Scan (stringify g 0 v @ []) = prepend (toks v) (tokenize Scan [])"
    by (rule tokenize_stringify [OF c]) (simp add: delimited_simps)
  then have t: "tokenize Scan (stringify g 0 v) = Some (toks v)"
    by (simp add: tokenize.simps prepend_simps)
  have "parse_run PVal [] (toks v @ []) = continue v [] []"
    by (rule parse_toks [OF c]) simp
  then have "parse_run PVal [] (toks v) = Some v"
    by (simp add: continue_def)
  with t show ?thesis by (simp add: JSON_parse_def)
qed

section \<open>Export and import\<close>

lemma js_of_item_clean: "json_num (price it) \<Longrightarrow> json_clean (js_of_item it)"
  by (simp add: js_of_item_def)

lemma js_of_month_clean:
  "json_num (maxBudget d) \<Longrightarrow> list_all (\<lambda>it. json_num (price it)) (items d) \<Longrightarrow>
   json_clean (js_of_month d)"
  by (simp add: js_of_month_def list_all_iff js_of_item_clean)

lemma js_of_store_clean: "exportable s \<Longrightarrow> json_clean (js_of_store (heap s) (store s))"
proof -
  assume ex: "exportable s"
  let ?snap = "snapshot (heap s) (store s)"
  have "map fst ?snap = map fst (monthsObjs (heap s) (months (store s)))"
    by (simp add: snapshot_def case_prod_unfold comp_def)
  with ex have "distinct (map fst ?snap)"
    by (simp add: exportable_def state_ok_def store_ok_def)
  moreover from ex have "json_clean (js_of_month (snd kd))" if "kd \<in> set ?snap" for kd
    using that by (auto simp add: exportable_def list_all_iff intro: js_of_month_clean)
  ultimately show ?thesis
    by (simp add: js_of_store_def comp_def list_all_iff)
qed

lemma well_formed_exportable: "well_formed s \<Longrightarrow> exportable s"
  by (auto simp add: well_formed_def exportable_def month_ok_def item_ok_def list_all_iff)

text \<open>The exported text of a store with finite numbers is imported as the store it came from.\<close>

lemma import_export:
  assumes "exportable s"
  shows "importAll (Some (snd (exportAll s))) = Imported (js_of_store (heap s) (store s))"
proof -
  let ?v = "js_of_store (heap s) (store s)"
  have p: "JSON_parse (stringify 2 0 ?v) = Some ?v"
    by (rule parse_stringify) (rule js_of_store_clean [OF assms])
  have "truthy ?v" "typeof_object ?v" "truthy_opt (get_months ?v)"
    by (simp_all add: js_of_store_def get_months_def truthy_opt_def)
  with p show ?thesis
    by (simp add: importAll_def exportAll_def)
qed

lemma js_of_item_inj: "js_of_item a = js_of_item b \<Longrightarrow> a = b"
  by (cases a; cases b) (simp add: js_of_item_def)

lemma js_of_month_inj: "js_of_month a = js_of_month b \<Longrightarrow> a = b"
proof -
  assume "js_of_month a = js_of_month b"
  then have m: "maxBudget a = maxBudget b" and i: "map js_of_item (items a) = map js_of_item (items b)"
    by (simp_all add: js_of_month_def)
  have "inj js_of_item" by (rule injI) (rule js_of_item_inj)
  with i have "items a = items b" by (simp add: inj_map_eq_map)
  with m show ?thesis by simp
qed

lemma js_of_store_inj:
  "js_of_store h' st' = js_of_store h st \<Longrightarrow> snapshot h' st' = snapshot h st"
proof -
  let ?g = "\<lambda>kd :: string \<times> monthdata. (fst kd, js_of_month (snd kd))"
  assume "js_of_store h' st' = js_of_store h st"
  then have "map ?g (snapshot h' st') = map ?g (snapshot h st)"
    by (simp add: js_of_store_def)
  moreover have "inj ?g"
    by (rule injI) (auto simp add: prod_eq_iff dest: js_of_month_inj)
  ultimately show ?thesis by (simp add: inj_map_eq_map)
qed

lemma state0_well_formed: "well_formed state0"
  by code_simp

text \<open>
  C5. For every well-formed store, importing the exported document succeeds, and the
  store it installs is the value of the original store: any store with that value has
  the same months, ceilings and items in the same order.
\<close>

theorem export_import_roundtrip:
  "well_formed s \<longrightarrow>
     importAll (Some (snd (exportAll s))) = Imported (js_of_store (heap s) (store s)) \<and>
     (\<forall>h' st'. importAll (Some (snd (exportAll s))) = Imported (js_of_store h' st') \<longrightarrow>
        snapshot h' st' = snapshot (heap s) (store s))"
proof
  assume wf: "well_formed s"
  let ?v = "js_of_store (heap s) (store s)"
  have i: "importAll (Some (snd (exportAll s))) = Imported ?v"
    by (rule import_export) (rule well_formed_exportable [OF wf])
  show "importAll (Some (snd (exportAll s))) = Imported ?v \<and>
     (\<forall>h' st'. importAll (Some (snd (exportAll s))) = Imported (js_of_store h' st') \<longrightarrow>
        snapshot h' st' = snapshot (heap s) (store s))"
    using i by (auto dest: js_of_store_inj)
qed

theorem export_import_roundtrip_witness:
  "well_formed state0 \<and>
   importAll (Some (snd (exportAll state0))) =
     Imported (JObj [(''months'', JObj
       [(''2024-01'', JObj [(''maxBudget'', JNum (Fin 100)),
           (''items'', JArr [JObj [(''id'', JStr ''a''), (''name'', JStr ''rent''),
              (''price'', JNum (Fin 30)), (''createdAt'', JStr ''t0'')]])]),
        (''2024-02'', JObj [(''maxBudget'', JNum (Fin 50)),
           (''items'', JArr [JObj [(''id'', JStr ''b''), (''name'', JStr ''gym''),
              (''price'', JNum (Fin 20)), (''createdAt'', JStr ''t1'')]])])])])"
proof -
  have v: "js_of_store (heap state0) (store state0) =
     JObj [(''months'', JObj
       [(''2024-01'', JObj [(''maxBudget'', JNum (Fin 100)),
           (''items'', JArr [JObj [(''id'', JStr ''a''), (''name'', JStr ''rent''),
              (''price'', JNum (Fin 30)), (''createdAt'', JStr ''t0'')]])]),
        (''2024-02'', JObj [(''maxBudget'', JNum (Fin 50)),
           (''items'', JArr [JObj [(''id'', JStr ''b''), (''name'', JStr ''gym''),
              (''price'', JNum (Fin 20)), (''createdAt'', JStr ''t1'')]])])])]"
    by (simp add: js_of_store_def js_of_month_def js_of_item_def snapshot_def state0_def heap0_def)
  from export_import_roundtrip [of state0] state0_well_formed show ?thesis
    by (simp add: v)
qed

section \<open>Ceilings\<close>

lemma parse_negative_ceiling:
  "JSON_parse negative_ceiling =
     Some (JObj [(''months'', JObj [(''2024-01'',
       JObj [(''maxBudget'', JNum (Fin (- 7))), (''items'', JArr [])])])])"
  by code_simp

lemma ledger_keeps_budgets:
  "state_ok s \<longrightarrow> state_budgets_nonneg s \<longrightarrow>
     state_budgets_nonneg (snd (addItem uuid now s)) \<and>
     state_budgets_nonneg (snd (removeItem c i s)) \<and>
     state_budgets_nonneg (snd (updateItem i f s)) \<and>
     state_budgets_nonneg (snd (resetMonth c s)) \<and>
     state_budgets_nonneg (snd (ensureMonth s)) \<and>
     (\<forall>d. month_of s (activeMonth s) = Some d \<longrightarrow>
        month_of (snd (updateBudget val s)) (activeMonth s) =
          Some (d\<lparr>maxBudget := (if isNaN (Number val) then Fin 0 else Number val)\<rparr>) \<and>
        \<not> isNaN (if isNaN (Number val) then Fin 0 else Number val)) \<and>
     (state_budgets_nonneg (snd (updateBudget val s)) \<longleftrightarrow>
        month_of s (activeMonth s) = None \<or> \<not> js_lt (Number val) (Fin 0))"
proof (intro impI conjI allI)
  assume ok: "state_ok s" and nn: "state_budgets_nonneg s"
  from nn have old: "js_ge (maxBudget d) (Fin 0)" if "month_of s k = Some d" for k d
    using that by (simp add: budgets_nonneg_iff [OF ok])
  have zero: "js_ge (Fin 0) (Fin 0)" by (simp add: js_ge_def js_le_def)
  show "state_budgets_nonneg (snd (addItem uuid now s))"
    unfolding budgets_nonneg_iff [OF addItem_ok [OF ok]]
    by (auto simp add: addItem_month_of [OF ok] old split: if_splits)
  show "state_budgets_nonneg (snd (removeItem c i s))"
    unfolding budgets_nonneg_iff [OF removeItem_ok [OF ok]]
    by (auto simp add: removeItem_def copying_month_of [OF ok] old split: if_splits)
  show "state_budgets_nonneg (snd (updateItem i f s))"
    unfolding budgets_nonneg_iff [OF updateItem_ok [OF ok]]
    by (auto simp add: updateItem_def copying_month_of [OF ok] old split: if_splits)
  show "state_budgets_nonneg (snd (resetMonth c s))"
    unfolding budgets_nonneg_iff [OF resetMonth_ok [OF ok]]
    by (auto simp add: resetMonth_month_of [OF ok] old zero split: if_splits)
  show "state_budgets_nonneg (snd (ensureMonth s))"
    unfolding budgets_nonneg_iff [OF ensureMonth_ok [OF ok]]
    by (auto simp add: ensureMonth_month_of [OF ok] old zero split: if_splits)
  show "month_of (snd (updateBudget val s)) (activeMonth s) =
          Some (d\<lparr>maxBudget := (if isNaN (Number val) then Fin 0 else Number val)\<rparr>)"
    if "month_of s (activeMonth s) = Some d" for d
    using that by (simp add: updateBudget_month_of [OF ok])
  show "\<not> isNaN (if isNaN (Number val) then Fin 0 else Number val)"
    by (simp add: isNaN_def)
  have ge: "js_ge (if isNaN n then Fin 0 else n) (Fin 0) \<longleftrightarrow> \<not> js_lt n (Fin 0)" for n
    by (cases n) (auto simp add: js_ge_def js_le_def isNaN_def)
  show "state_budgets_nonneg (snd (updateBudget val s)) \<longleftrightarrow>
        month_of s (activeMonth s) = None \<or> \<not> js_lt (Number val) (Fin 0)"
  proof (cases "month_of s (activeMonth s)")
    case None
    then show ?thesis
      unfolding budgets_nonneg_iff [OF updateBudget_ok [OF ok]]
      by (auto simp add: updateBudget_month_of [OF ok] old split: if_splits)
  next
    case (Some d)
    show ?thesis
      unfolding budgets_nonneg_iff [OF updateBudget_ok [OF ok]]
    proof
      assume a: "\<forall>k d. month_of (snd (updateBudget val s)) k = Some d \<longrightarrow> js_ge (maxBudget d) (Fin 0)"
      have "month_of (snd (updateBudget val s)) (activeMonth s) =
          Some (d\<lparr>maxBudget := (if isNaN (Number val) then Fin 0 else Number val)\<rparr>)"
        using Some by (simp add: updateBudget_month_of [OF ok])
      with a have "js_ge (maxBudget (d\<lparr>maxBudget := (if isNaN (Number val) then Fin 0 else Number val)\<rparr>)) (Fin 0)"
        by blast
      then have "js_ge (if isNaN (Number val) then Fin 0 else Number val) (Fin 0)"
        by simp
      then show "month_of s (activeMonth s) = None \<or> \<not> js_lt (Number val) (Fin 0)"
        by (simp add: ge)
    next
      assume "month_of s (activeMonth s) = None \<or> \<not> js_lt (Number val) (Fin 0)"
      with Some have "js_ge (if isNaN (Number val) then Fin 0 else Number val) (Fin 0)"
        by (simp add: ge)
      then show "\<forall>k d. month_of (snd (updateBudget val s)) k = Some d \<longrightarrow> js_ge (maxBudget d) (Fin 0)"
        by (auto simp add: updateBudget_month_of [OF ok] old split: if_splits)
    qed
  qed
qed

lemma importAll_installs_parsed:
  "importAll (Some doc) = Imported v \<Longrightarrow> JSON_parse doc = Some v"
  by (auto simp add: importAll_def split: option.splits if_splits)

text \<open>
  C6 (as stated) fails. \<open>updateBudget\<close> stores the number the text converts to unless
  that is \<open>NaN\<close>, so the text \<open>-5\<close> leaves the ceiling -5 in a store whose ceilings
  were all non-negative; and \<open>importAll\<close> looks at no ceiling, so a document with the
  ceiling -7 becomes the store as it is.
\<close>

theorem negative_ceilings_stored:
  "state_budgets_nonneg state0 \<and>
   fst (updateBudget ''-5'' state0) = Done \<and>
   month_of (snd (updateBudget ''-5'' state0)) ''2024-01'' =
     Some \<lparr>maxBudget = Fin (- 5),
       items = [\<lparr>item_id = ''a'', name = ''rent'', price = Fin 30, createdAt = ''t0''\<rparr>]\<rparr> \<and>
   \<not> state_budgets_nonneg (snd (updateBudget ''-5'' state0)) \<and>
   importAll (Some negative_ceiling) =
     Imported (JObj [(''months'', JObj [(''2024-01'',
       JObj [(''maxBudget'', JNum (Fin (- 7))), (''items'', JArr [])])])])"
proof -
  have "state_budgets_nonneg state0 \<and>
   fst (updateBudget ''-5'' state0) = Done \<and>
   month_of (snd (updateBudget ''-5'' state0)) ''2024-01'' =
     Some \<lparr>maxBudget = Fin (- 5),
       items = [\<lparr>item_id = ''a'', name = ''rent'', price = Fin 30, createdAt = ''t0''\<rparr>]\<rparr> \<and>
   \<not> state_budgets_nonneg (snd (updateBudget ''-5'' state0))"
    by (simp add: action_eval num_eval state_budgets_nonneg_def budgets_nonneg_def)
  moreover have "importAll (Some negative_ceiling) =
     Imported (JObj [(''months'', JObj [(''2024-01'',
       JObj [(''maxBudget'', JNum (Fin (- 7))), (''items'', JArr [])])])])"
    by (simp add: importAll_def parse_negative_ceiling get_months_def truthy_opt_def)
  ultimately show ?thesis by simp
qed

text \<open>
  C6 (amended). In a state whose store is well-formed in the heap, \<open>addItem\<close>,
  \<open>removeItem\<close>, \<open>updateItem\<close>, \<open>resetMonth\<close> and the effect that creates the active
  month keep every ceiling of the store non-negative. \<open>updateBudget\<close> stores
  \<open>Number(val)\<close> as the ceiling of the active month, and 0 when that is \<open>NaN\<close>; the
  stored ceiling is never \<open>NaN\<close>, and the ceilings stay non-negative exactly when the
  month is missing or the number is not below 0. \<open>importAll\<close> checks no ceiling: the
  store it installs is the parsed document itself, and a store with finite numbers,
  whatever the sign of its ceilings, is imported from its exported text as it is.
\<close>

theorem budgets_nonneg_preserved:
  "(state_ok s \<longrightarrow> state_budgets_nonneg s \<longrightarrow>
     state_budgets_nonneg (snd (addItem uuid now s)) \<and>
     state_budgets_nonneg (snd (removeItem c i s)) \<and>
     state_budgets_nonneg (snd (updateItem i f s)) \<and>
     state_budgets_nonneg (snd (resetMonth c s)) \<and>
     state_budgets_nonneg (snd (ensureMonth s)) \<and>
     (\<forall>d. month_of s (activeMonth s) = Some d \<longrightarrow>
        month_of (snd (updateBudget val s)) (activeMonth s) =
          Some (d\<lparr>maxBudget := (if isNaN (Number val) then Fin 0 else Number val)\<rparr>) \<and>
        \<not> isNaN (if isNaN (Number val) then Fin 0 else Number val)) \<and>
     (state_budgets_nonneg (snd (updateBudget val s)) \<longleftrightarrow>
        month_of s (activeMonth s) = None \<or> \<not> js_lt (Number val) (Fin 0))) \<and>
   (importAll (Some doc) = Imported v \<longrightarrow> JSON_parse doc = Some v) \<and>
   (exportable t \<longrightarrow>
      importAll (Some (snd (exportAll t))) = Imported (js_of_store (heap t) (store t)))"
proof (intro conjI)
  show "state_ok s \<longrightarrow> state_budgets_nonneg s \<longrightarrow>
     state_budgets_nonneg (snd (addItem uuid now s)) \<and>
     state_budgets_nonneg (snd (removeItem c i s)) \<and>
     state_budgets_nonneg (snd (updateItem i f s)) \<and>
     state_budgets_nonneg (snd (resetMonth c s)) \<and>
     state_budgets_nonneg (snd (ensureMonth s)) \<and>
     (\<forall>d. month_of s (activeMonth s) = Some d \<longrightarrow>
        month_of (snd (updateBudget val s)) (activeMonth s) =
          Some (d\<lparr>maxBudget := (if isNaN (Number val) then Fin 0 else Number val)\<rparr>) \<and>
        \<not> isNaN (if isNaN (Number val) then Fin 0 else Number val)) \<and>
     (state_budgets_nonneg (snd (updateBudget val s)) \<longleftrightarrow>
        month_of s (activeMonth s) = None \<or> \<not> js_lt (Number val) (Fin 0))"
    by (rule ledger_keeps_budgets)
  show "importAll (Some doc) = Imported v \<longrightarrow> JSON_parse doc = Some v"
    by (auto dest: importAll_installs_parsed)
  show "exportable t \<longrightarrow>
      importAll (Some (snd (exportAll t))) = Imported (js_of_store (heap t) (store t))"
    by (auto intro: import_export)
qed

theorem budgets_nonneg_preserved_witness:
  "state_ok state0 \<and> state_budgets_nonneg state0 \<and>
   state_budgets_nonneg (snd (addItem ''u'' ''now'' state0)) \<and>
   month_of (snd (updateBudget ''abc'' state0)) ''2024-01'' =
     Some \<lparr>maxBudget = Fin 0,
       items = [\<lparr>item_id = ''a'', name = ''rent'', price = Fin 30, createdAt = ''t0''\<rparr>]\<rparr> \<and>
   state_budgets_nonneg (snd (updateBudget ''abc'' state0)) \<and>
   importAll (Some negative_ceiling) =
     Imported (JObj [(''months'', JObj [(''2024-01'',
       JObj [(''maxBudget'', JNum (Fin (- 7))), (''items'', JArr [])])])]) \<and>
   JSON_parse negative_ceiling =
     Some (JObj [(''months'', JObj [(''2024-01'',
       JObj [(''maxBudget'', JNum (Fin (- 7))), (''items'', JArr [])])])]) \<and>
   exportable (snd (updateBudget ''-5'' state0)) \<and>
   importAll (Some (snd (exportAll (snd (updateBudget ''-5'' state0))))) =
     Imported (js_of_store (heap (snd (updateBudget ''-5'' state0)))
                 (store (snd (updateBudget ''-5'' state0))))"
proof -
  have nn: "state_budgets_nonneg state0"
    by (simp add: state_budgets_nonneg_def budgets_nonneg_def snapshot_def state0_def heap0_def
        js_ge_def js_le_def)
  have n: "Number ''abc'' = NaN" by (simp add: num_eval)
  have m: "month_of state0 (activeMonth state0) =
     Some \<lparr>maxBudget = Fin 100,
       items = [\<lparr>item_id = ''a'', name = ''rent'', price = Fin 30, createdAt = ''t0''\<rparr>]\<rparr>"
    "activeMonth state0 = ''2024-01''"
    by (simp_all add: state0_def heap0_def month_of_def month_data_def get_month_def)
  have i: "importAll (Some negative_ceiling) =
     Imported (JObj [(''months'', JObj [(''2024-01'',
       JObj [(''maxBudget'', JNum (Fin (- 7))), (''items'', JArr [])])])])"
    by (simp add: importAll_def parse_negative_ceiling get_months_def truthy_opt_def)
  have e: "exportable (snd (updateBudget ''-5'' state0))"
    by code_simp
  from budgets_nonneg_preserved [where s = state0 and uuid = "''u''" and now = "''now''"
      and val = "''abc''" and doc = negative_ceiling
      and v = "JObj [(''months'', JObj [(''2024-01'',
          JObj [(''maxBudget'', JNum (Fin (- 7))), (''items'', JArr [])])])]"
      and t = "snd (updateBudget ''-5'' state0)"]
    state0_ok nn n m i e
  show ?thesis by (simp add: isNaN_def)
qed

end
